theory Spec2Isabelle
  imports Complex_Main "HOL-Library.Char_ord" "HOL-Library.List_Lexorder"
begin

section \<open>Drawdown alerts: a model of \<^verbatim>\<open>scripts/check_drawdown.py\<close>\<close>

text \<open>
  Python floats are modelled as \<^typ>\<open>real\<close>: the program only compares them
  (\<^verbatim>\<open><=\<close>, \<^verbatim>\<open>max\<close>) and forms one quotient, whose division by zero is
  written out as an error. Python ints are \<^typ>\<open>int\<close>, strings are \<^typ>\<open>string\<close>.
  Every \<^verbatim>\<open>raise\<close> of the source is a value of \<open>error\<close>.

  The drawdown of the model is the exact quotient \<open>last / peak - 1\<close>; the code
  computes it in IEEE doubles, so a drawdown within rounding distance of a threshold
  can fall on the other side of it in the code. No theorem below depends on the value
  of the quotient, and the sample closes (95, 60, 40 and 10 against a peak of 100) keep
  every drawdown well away from the thresholds.
\<close>

subsection \<open>Data\<close>

datatype error =
    FetchFailed string
  | CloseNotFound string
  | NotEnoughData string nat
  | ZeroDivisionError
  | ValueError
  | IndexError
  | CalledProcessError

record Snapshot =
  last_date :: string
  last_close :: real
  peak_date :: string
  peak_value :: real
  drawdown :: real

subsection \<open>Threshold evaluator\<close>

text \<open>
  \<^verbatim>\<open>for i, th in enumerate(levels, start=1): if drawdown <= th: hit = i\<close>.
  The loop is \<open>decide_loop\<close>, with the counter \<open>i\<close> and the variable \<open>hit\<close>
  as arguments.
\<close>

fun decide_loop :: "int \<Rightarrow> real \<Rightarrow> real list \<Rightarrow> int option \<Rightarrow> int option" where
  "decide_loop i dd [] hit = hit"
| "decide_loop i dd (th # ths) hit =
     decide_loop (i + 1) dd ths (if dd \<le> th then Some i else hit)"

definition decide_level :: "real \<Rightarrow> real list \<Rightarrow> int option" where
  "decide_level dd levels = decide_loop 1 dd levels None"

text \<open>The configured ladders, in the insertion order of the dictionary.\<close>

definition RULES :: "(string \<times> real list) list" where
  "RULES =
     [(''TQQQ'', [- 0.30, - 0.55, - 0.75]),
      (''SOXL'', [- 0.45, - 0.65, - 0.85]),
      (''TECL'', [- 0.25, - 0.50, - 0.75])]"

definition LOOKBACK_TRADING_DAYS :: nat where
  "LOOKBACK_TRADING_DAYS = 252"

subsection \<open>Price snapshot fetcher\<close>

text \<open>
  What \<^verbatim>\<open>yf.download\<close> returns: \<^verbatim>\<open>None\<close>, or a table with a row index and
  named columns. A row label is modelled by the ISO date it prints as
  (\<^verbatim>\<open>.date().isoformat()\<close>), a cell is a float or missing (\<open>None\<close>).
\<close>

record DataFrame =
  df_index :: "string list"
  df_columns :: "(string \<times> real option list) list"

type_synonym Series = "(string \<times> real) list"

definition df_empty :: "DataFrame \<Rightarrow> bool" where
  "df_empty df \<longleftrightarrow> df_index df = [] \<or> df_columns df = []"

fun dropna :: "(string \<times> real option) list \<Rightarrow> Series" where
  "dropna [] = []"
| "dropna ((d, None) # rows) = dropna rows"
| "dropna ((d, Some v) # rows) = (d, v) # dropna rows"

text \<open>\<^verbatim>\<open>s.iloc[-n:]\<close>: the last \<open>n\<close> rows, all of them when there are fewer.\<close>

definition iloc_last :: "nat \<Rightarrow> 'a list \<Rightarrow> 'a list" where
  "iloc_last n s = drop (length s - n) s"

text \<open>
  \<^verbatim>\<open>Series.max\<close> and \<^verbatim>\<open>Series.idxmax\<close> on a series without missing values, as
  left-to-right scans; \<open>idxmax_loop\<close> replaces its candidate only by a strictly
  larger value.
\<close>

fun max_loop :: "real \<Rightarrow> Series \<Rightarrow> real" where
  "max_loop m [] = m"
| "max_loop m ((d, v) # rows) = max_loop (max m v) rows"

fun idxmax_loop :: "string \<times> real \<Rightarrow> Series \<Rightarrow> string \<times> real" where
  "idxmax_loop best [] = best"
| "idxmax_loop best (row # rows) =
     idxmax_loop (if snd best < snd row then row else best) rows"

definition fetch_snapshot :: "(string \<Rightarrow> DataFrame option) \<Rightarrow> string \<Rightarrow> error + Snapshot" where
  "fetch_snapshot download symbol =
     (case download symbol of
        None \<Rightarrow> Inl (FetchFailed symbol)
      | Some df \<Rightarrow>
          if df_empty df then Inl (FetchFailed symbol)
          else
            (case map_of (df_columns df) ''Close'' of
               None \<Rightarrow> Inl (CloseNotFound symbol)
             | Some column \<Rightarrow>
                 let close = dropna (zip (df_index df) column) in
                 if length close < 60 then Inl (NotEnoughData symbol (length close))
                 else
                   (case iloc_last LOOKBACK_TRADING_DAYS close of
                      [] \<Rightarrow> Inl ValueError
                    | row # rows \<Rightarrow>
                        let tail = row # rows;
                            peak_value = max_loop (snd row) rows;
                            peak_date = fst (idxmax_loop row rows);
                            last_value = snd (last tail);
                            last_date = fst (last tail)
                        in
                          if peak_value = 0 then Inl ZeroDivisionError
                          else
                            Inr \<lparr>last_date = last_date,
                                 last_close = last_value,
                                 peak_date = peak_date,
                                 peak_value = peak_value,
                                 drawdown = last_value / peak_value - 1\<rparr>)))"

subsection \<open>State store\<close>

text \<open>
  A symbol's dictionary in the state file, with the keys the program writes; a key
  that is absent (or \<^verbatim>\<open>null\<close>) is \<open>None\<close>. \<open>empty_sym_state\<close> is \<^verbatim>\<open>{}\<close>.
\<close>

record SymState =
  st_updated_at :: "string option"
  st_last_date :: "string option"
  st_last_close :: "real option"
  st_peak_date :: "string option"
  st_peak_value :: "real option"
  st_drawdown :: "real option"
  notified_level :: "int option"

definition empty_sym_state :: SymState where
  "empty_sym_state =
     \<lparr>st_updated_at = None, st_last_date = None, st_last_close = None,
      st_peak_date = None, st_peak_value = None, st_drawdown = None,
      notified_level = None\<rparr>"

record AppState =
  version :: int
  symbols :: "string \<rightharpoonup> SymState"

text \<open>The argument is the content of the state file, \<open>None\<close> when it does not exist.\<close>

definition load_state :: "AppState option \<Rightarrow> AppState" where
  "load_state file =
     (case file of
        Some state \<Rightarrow> state
      | None \<Rightarrow> \<lparr>version = 1, symbols = Map.empty\<rparr>)"

definition save_state :: "AppState \<Rightarrow> AppState option" where
  "save_state state = Some state"

subsection \<open>Notifier and the outside world\<close>

text \<open>
  A call of \<^verbatim>\<open>create_issue\<close> is recorded by its arguments, from which title and body
  are formatted. The outside world of one run: the provider's answer per symbol,
  whether \<^verbatim>\<open>gh issue create\<close> exits with status zero, the clock, and the state file.
\<close>

record Issue =
  i_symbol :: string
  i_level :: int
  i_snap :: Snapshot
  i_threshold :: real

datatype call = Download string | IssueCreate Issue

record World =
  download :: "string \<Rightarrow> DataFrame option"
  gh_ok :: "Issue \<Rightarrow> bool"
  utc_now :: string
  state_file :: "AppState option"

text \<open>\<^verbatim>\<open>xs[i]\<close>: a negative index counts from the end, out of range raises.\<close>

definition py_index :: "'a list \<Rightarrow> int \<Rightarrow> error + 'a" where
  "py_index xs i =
     (if 0 \<le> i \<and> i < int (length xs) then Inr (xs ! nat i)
      else if i < 0 \<and> - int (length xs) \<le> i then Inr (xs ! nat (i + int (length xs)))
      else Inl IndexError)"

definition create_issue ::
  "World \<Rightarrow> string \<Rightarrow> int \<Rightarrow> Snapshot \<Rightarrow> real \<Rightarrow> call list \<times> (error + unit)" where
  "create_issue w symbol level snap threshold =
     (let issue = \<lparr>i_symbol = symbol, i_level = level, i_snap = snap, i_threshold = threshold\<rparr>
      in ([IssueCreate issue], if gh_ok w issue then Inr () else Inl CalledProcessError))"

subsection \<open>Alert decision engine\<close>

text \<open>
  \<open>notify\<close> is the conditional of lines 150 to 154: it returns the calls made and the
  symbol's dictionary, or the error that ends the run.
\<close>

definition notify ::
  "World \<Rightarrow> string \<Rightarrow> real list \<Rightarrow> Snapshot \<Rightarrow> int option \<Rightarrow> int \<Rightarrow> SymState
     \<Rightarrow> call list \<times> (error + SymState)" where
  "notify w symbol levels snap hit_level last_notified_level sym_state =
     (case hit_level of
        None \<Rightarrow> ([], Inr sym_state)
      | Some h \<Rightarrow>
          if h > last_notified_level then
            (case py_index levels (h - 1) of
               Inl e \<Rightarrow> ([], Inl e)
             | Inr threshold \<Rightarrow>
                 (case create_issue w symbol h snap threshold of
                    (cs, Inl e) \<Rightarrow> (cs, Inl e)
                  | (cs, Inr u) \<Rightarrow> (cs, Inr (sym_state\<lparr>notified_level := Some h\<rparr>))))
          else ([], Inr sym_state))"

definition refresh :: "string \<Rightarrow> Snapshot \<Rightarrow> SymState \<Rightarrow> SymState" where
  "refresh now snap sym_state =
     sym_state\<lparr>st_updated_at := Some now,
               st_last_date := Some (last_date snap),
               st_last_close := Some (last_close snap),
               st_peak_date := Some (peak_date snap),
               st_peak_value := Some (peak_value snap),
               st_drawdown := Some (drawdown snap)\<rparr>"

text \<open>
  The effective last notified level of lines 141 to 147: \<open>stored_level\<close> is
  \<^verbatim>\<open>int(sym_state.get("notified_level", 0) or 0)\<close>, and the level is set to 0 when
  the stored peak date is not the snapshot's.
\<close>

definition stored_level :: "SymState \<Rightarrow> int" where
  "stored_level sym_state = (case notified_level sym_state of None \<Rightarrow> 0 | Some n \<Rightarrow> n)"

definition effective_level :: "SymState \<Rightarrow> Snapshot \<Rightarrow> int" where
  "effective_level sym_state snap =
     (let last_peak_date = st_peak_date sym_state;
          last_notified_level = stored_level sym_state
      in if last_peak_date \<noteq> Some (peak_date snap) then 0 else last_notified_level)"

text \<open>\<^verbatim>\<open>state["symbols"].get(symbol, {})\<close>.\<close>

definition get_sym_state :: "AppState \<Rightarrow> string \<Rightarrow> SymState" where
  "get_sym_state state symbol =
     (case symbols state symbol of None \<Rightarrow> empty_sym_state | Some s \<Rightarrow> s)"

text \<open>The body of the loop of \<^verbatim>\<open>main\<close> for one entry of \<^verbatim>\<open>RULES\<close>.\<close>

definition process_symbol ::
  "World \<Rightarrow> string \<Rightarrow> AppState \<Rightarrow> string \<times> real list \<Rightarrow> call list \<times> (error + AppState)" where
  "process_symbol w now state item =
     (case item of (symbol, levels) \<Rightarrow>
        (case fetch_snapshot (download w) symbol of
           Inl e \<Rightarrow> ([Download symbol], Inl e)
         | Inr snap \<Rightarrow>
             let hit_level = decide_level (drawdown snap) levels;
                 sym_state = get_sym_state state symbol;
                 last_notified_level = effective_level sym_state snap
             in
               (case notify w symbol levels snap hit_level last_notified_level sym_state of
                  (cs, Inl e) \<Rightarrow> (Download symbol # cs, Inl e)
                | (cs, Inr sym_state') \<Rightarrow>
                    (Download symbol # cs,
                     Inr (state\<lparr>symbols := (symbols state)(symbol \<mapsto> refresh now snap sym_state')\<rparr>)))))"

fun main_loop ::
  "World \<Rightarrow> string \<Rightarrow> (string \<times> real list) list \<Rightarrow> AppState \<Rightarrow> call list \<times> (error + AppState)" where
  "main_loop w now [] state = ([], Inr state)"
| "main_loop w now (item # items) state =
     (case process_symbol w now state item of
        (cs, Inl e) \<Rightarrow> (cs, Inl e)
      | (cs, Inr state') \<Rightarrow>
          (case main_loop w now items state' of (cs', r) \<Rightarrow> (cs @ cs', r)))"

text \<open>
  A run: the calls it made in order, the state file afterwards, and the error it
  ended with, if any. The file is written only after the loop.
\<close>

record Outcome =
  calls :: "call list"
  file_after :: "AppState option"
  raised :: "error option"

definition main :: "World \<Rightarrow> Outcome" where
  "main w =
     (let state = load_state (state_file w);
          now = utc_now w
      in case main_loop w now RULES state of
           (cs, Inl e) \<Rightarrow> \<lparr>calls = cs, file_after = state_file w, raised = Some e\<rparr>
         | (cs, Inr state') \<Rightarrow> \<lparr>calls = cs, file_after = save_state state', raised = None\<rparr>)"

text \<open>The issues a list of calls has filed, in order.\<close>

fun issues_of :: "call list \<Rightarrow> Issue list" where
  "issues_of [] = []"
| "issues_of (Download symbol # cs) = issues_of cs"
| "issues_of (IssueCreate issue # cs) = issue # issues_of cs"

text \<open>
  The symbol a call is about, and whether the call raises in a given world
  (\<^verbatim>\<open>fetch_snapshot\<close> raising, or \<^verbatim>\<open>gh\<close> exiting with a non-zero status).
\<close>

fun call_symbol :: "call \<Rightarrow> string" where
  "call_symbol (Download symbol) = symbol"
| "call_symbol (IssueCreate issue) = i_symbol issue"

fun call_fails :: "World \<Rightarrow> call \<Rightarrow> bool" where
  "call_fails w (Download symbol) = isl (fetch_snapshot (download w) symbol)"
| "call_fails w (IssueCreate issue) = (\<not> gh_ok w issue)"

text \<open>A symbol's dictionary in the state file before a run and after it.\<close>

definition stored_before :: "World \<Rightarrow> string \<Rightarrow> SymState" where
  "stored_before w symbol = get_sym_state (load_state (state_file w)) symbol"

definition stored_after :: "World \<Rightarrow> string \<Rightarrow> SymState" where
  "stored_after w symbol = get_sym_state (load_state (file_after (main w))) symbol"


subsection \<open>Sample data\<close>

text \<open>
  Concrete inputs for the examples below: 61 consecutive row labels, a table with an
  \<^verbatim>\<open>Open\<close> and a \<^verbatim>\<open>Close\<close> column, a world in which every symbol gets the same 60
  rows (58 closes of 90, a high of 100 on 2024-02-29, a last close \<open>c\<close> on
  2024-03-01) and every issue is filed, the world of the day before (59 rows of 90
  and the high of 100 as the last close), the world with the provider returning
  nothing for one symbol, and a state file that knows one symbol.
\<close>

definition sample_days :: "string list" where
  "sample_days =
     [''2024-01-01'', ''2024-01-02'', ''2024-01-03'', ''2024-01-04'', ''2024-01-05'',
      ''2024-01-06'', ''2024-01-07'', ''2024-01-08'', ''2024-01-09'', ''2024-01-10'',
      ''2024-01-11'', ''2024-01-12'', ''2024-01-13'', ''2024-01-14'', ''2024-01-15'',
      ''2024-01-16'', ''2024-01-17'', ''2024-01-18'', ''2024-01-19'', ''2024-01-20'',
      ''2024-01-21'', ''2024-01-22'', ''2024-01-23'', ''2024-01-24'', ''2024-01-25'',
      ''2024-01-26'', ''2024-01-27'', ''2024-01-28'', ''2024-01-29'', ''2024-01-30'',
      ''2024-01-31'', ''2024-02-01'', ''2024-02-02'', ''2024-02-03'', ''2024-02-04'',
      ''2024-02-05'', ''2024-02-06'', ''2024-02-07'', ''2024-02-08'', ''2024-02-09'',
      ''2024-02-10'', ''2024-02-11'', ''2024-02-12'', ''2024-02-13'', ''2024-02-14'',
      ''2024-02-15'', ''2024-02-16'', ''2024-02-17'', ''2024-02-18'', ''2024-02-19'',
      ''2024-02-20'', ''2024-02-21'', ''2024-02-22'', ''2024-02-23'', ''2024-02-24'',
      ''2024-02-25'', ''2024-02-26'', ''2024-02-27'', ''2024-02-28'', ''2024-02-29'',
      ''2024-03-01'']"

definition sample_frame :: "string list \<Rightarrow> real list \<Rightarrow> DataFrame" where
  "sample_frame days closes =
     \<lparr>df_index = days,
      df_columns = [(''Open'', map Some closes), (''Close'', map Some closes)]\<rparr>"

definition sample_world :: "real \<Rightarrow> AppState option \<Rightarrow> World" where
  "sample_world c file =
     \<lparr>download = (\<lambda>symbol. Some (sample_frame (drop 1 sample_days) (replicate 58 90 @ [100, c]))),
      gh_ok = (\<lambda>issue. True),
      utc_now = ''2024-03-01T21:30:00+00:00'',
      state_file = file\<rparr>"

definition sample_world_high :: "AppState option \<Rightarrow> World" where
  "sample_world_high file =
     (sample_world 100 file)
       \<lparr>download := (\<lambda>symbol. Some (sample_frame (take 60 sample_days) (replicate 59 90 @ [100])))\<rparr>"

definition sample_world_outage :: "string \<Rightarrow> real \<Rightarrow> AppState option \<Rightarrow> World" where
  "sample_world_outage down c file =
     (sample_world c file)
       \<lparr>download := (\<lambda>symbol. if symbol = down then None
                                else download (sample_world c file) symbol)\<rparr>"

definition sample_snapshot :: "real \<Rightarrow> Snapshot" where
  "sample_snapshot c =
     \<lparr>last_date = ''2024-03-01'', last_close = c, peak_date = ''2024-02-29'',
      peak_value = 100, drawdown = c / 100 - 1\<rparr>"

definition sample_state :: "string \<Rightarrow> string \<Rightarrow> int \<Rightarrow> AppState" where
  "sample_state symbol day n =
     \<lparr>version = 1,
      symbols = [symbol \<mapsto> empty_sym_state\<lparr>st_peak_date := Some day, notified_level := Some n\<rparr>]\<rparr>"

section \<open>Threshold evaluator: properties\<close>

lemma decide_loop_snoc:
  "decide_loop i dd (ths @ [th]) hit =
     (if dd \<le> th then Some (i + int (length ths)) else decide_loop i dd ths hit)"
  by (induction ths arbitrary: i hit) (simp_all add: algebra_simps)

lemma decide_loop_None_iff:
  "decide_loop i dd ths hit = None \<longleftrightarrow> hit = None \<and> (\<forall>th\<in>set ths. \<not> dd \<le> th)"
  by (induction ths arbitrary: i hit) auto

lemma decide_loop_Some_iff:
  "decide_loop i dd ths None = Some r \<longleftrightarrow>
     (\<exists>j<length ths. r = i + int j \<and> dd \<le> ths ! j \<and> (\<forall>j'<length ths. dd \<le> ths ! j' \<longrightarrow> j' \<le> j))"
proof (induction ths rule: rev_induct)
  case Nil
  show ?case by simp
next
  case (snoc th ths)
  show ?case
  proof (cases "dd \<le> th")
    case True
    have "(\<exists>j<length (ths @ [th]). r = i + int j \<and> dd \<le> (ths @ [th]) ! j \<and>
             (\<forall>j'<length (ths @ [th]). dd \<le> (ths @ [th]) ! j' \<longrightarrow> j' \<le> j)) \<longleftrightarrow> r = i + int (length ths)"
      (is "?L \<longleftrightarrow> ?R")
    proof
      assume ?L
      then obtain j where j: "j < length (ths @ [th])" "r = i + int j"
        and mx: "\<forall>j'<length (ths @ [th]). dd \<le> (ths @ [th]) ! j' \<longrightarrow> j' \<le> j" by blast
      have "length ths \<le> j" using mx True by (simp add: nth_append)
      with j show ?R by simp
    next
      assume ?R
      show ?L
      proof (intro exI[of _ "length ths"] conjI allI impI)
        show "length ths < length (ths @ [th])" by simp
        show "r = i + int (length ths)" by fact
        show "dd \<le> (ths @ [th]) ! length ths" using True by simp
        fix j' assume "j' < length (ths @ [th])"
        then show "j' \<le> length ths" by simp
      qed
    qed
    then show ?thesis using True by (simp only: decide_loop_snoc if_True) auto
  next
    case False
    have "(\<exists>j<length (ths @ [th]). r = i + int j \<and> dd \<le> (ths @ [th]) ! j \<and>
             (\<forall>j'<length (ths @ [th]). dd \<le> (ths @ [th]) ! j' \<longrightarrow> j' \<le> j)) \<longleftrightarrow>
          (\<exists>j<length ths. r = i + int j \<and> dd \<le> ths ! j \<and> (\<forall>j'<length ths. dd \<le> ths ! j' \<longrightarrow> j' \<le> j))"
      (is "?L \<longleftrightarrow> ?R")
    proof
      assume ?L
      then obtain j where j: "j < length (ths @ [th])" "r = i + int j" "dd \<le> (ths @ [th]) ! j"
        and mx: "\<forall>j'<length (ths @ [th]). dd \<le> (ths @ [th]) ! j' \<longrightarrow> j' \<le> j" by blast
      have jl: "j < length ths"
      proof (rule ccontr)
        assume "\<not> j < length ths"
        with j(1) have "j = length ths" by simp
        with j(3) False show False by simp
      qed
      have "\<forall>j'<length ths. dd \<le> ths ! j' \<longrightarrow> j' \<le> j"
      proof (intro allI impI)
        fix j' assume a: "j' < length ths" "dd \<le> ths ! j'"
        then have "dd \<le> (ths @ [th]) ! j'" by (simp add: nth_append)
        with a(1) mx show "j' \<le> j" by simp
      qed
      with jl j show ?R by (auto simp: nth_append)
    next
      assume ?R
      then obtain j where j: "j < length ths" "r = i + int j" "dd \<le> ths ! j"
        and mx: "\<forall>j'<length ths. dd \<le> ths ! j' \<longrightarrow> j' \<le> j" by blast
      have "\<forall>j'<length (ths @ [th]). dd \<le> (ths @ [th]) ! j' \<longrightarrow> j' \<le> j"
      proof (intro allI impI)
        fix j' assume a: "j' < length (ths @ [th])" "dd \<le> (ths @ [th]) ! j'"
        show "j' \<le> j"
        proof (cases "j' < length ths")
          case True
          with a(2) mx show ?thesis by (simp add: nth_append)
        next
          case F: False
          with a(1) have "j' = length ths" by simp
          with a(2) False show ?thesis by simp
        qed
      qed
      moreover have "j < length (ths @ [th])" using j(1) by simp
      moreover have "dd \<le> (ths @ [th]) ! j" using j by (simp add: nth_append)
      ultimately show ?L using j(2) by blast
    qed
    then show ?thesis using False snoc.IH by (simp only: decide_loop_snoc if_False)
  qed
qed

lemma decide_level_range:
  assumes "decide_level dd levels = Some h"
  shows "1 \<le> h \<and> h \<le> int (length levels)"
  using assms unfolding decide_level_def decide_loop_Some_iff by auto

lemma decide_level_monotone:
  assumes mono: "sorted_wrt (\<ge>) levels"
    and k: "1 \<le> k" "k < length levels"
    and le: "dd \<le> levels ! (k - 1)" and gt: "levels ! k < dd"
  shows "decide_level dd levels = Some (int k)"
proof -
  have "\<forall>j'<length levels. dd \<le> levels ! j' \<longrightarrow> j' \<le> k - 1"
  proof (intro allI impI)
    fix j' assume a: "j' < length levels" "dd \<le> levels ! j'"
    show "j' \<le> k - 1"
    proof (rule ccontr)
      assume "\<not> j' \<le> k - 1"
      then have kj: "k \<le> j'" by simp
      have "levels ! j' \<le> levels ! k"
      proof (cases "k = j'")
        case True then show ?thesis by simp
      next
        case False
        with kj have "k < j'" by simp
        then show ?thesis using mono a(1) by (simp add: sorted_wrt_iff_nth_less)
      qed
      with a(2) gt show False by simp
    qed
  qed
  moreover have "k - 1 < length levels" using k by simp
  moreover have "int k = 1 + int (k - 1)" using k by simp
  ultimately show ?thesis
    unfolding decide_level_def decide_loop_Some_iff using le by blast
qed

lemma decide_level_above_first:
  assumes mono: "sorted_wrt (\<ge>) levels" and gt: "levels \<noteq> []" "levels ! 0 < dd"
  shows "decide_level dd levels = None"
proof -
  have "\<not> dd \<le> th" if "th \<in> set levels" for th
  proof -
    from that obtain j where j: "j < length levels" "th = levels ! j"
      by (auto simp: in_set_conv_nth)
    have "levels ! j \<le> levels ! 0"
    proof (cases j)
      case 0 then show ?thesis by simp
    next
      case (Suc m)
      then have "0 < j" by simp
      then show ?thesis using mono j(1) by (simp add: sorted_wrt_iff_nth_less)
    qed
    with gt(2) j(2) show ?thesis by simp
  qed
  then show ?thesis by (simp add: decide_level_def decide_loop_None_iff)
qed

text \<open>
  Claim C2. For every ladder and drawdown, \<open>decide_level\<close> returns the largest
  1-indexed position whose threshold the drawdown has reached, and none when no
  threshold is reached. For a non-increasing ladder: a drawdown at or below the
  threshold at 0-indexed position \<open>k - 1\<close> and above the one at position \<open>k\<close> gives
  level \<open>k\<close>, and a drawdown above the first threshold gives none.
\<close>

theorem decide_level_deepest:
  "(decide_level dd levels = None \<longleftrightarrow> (\<forall>j<length levels. \<not> dd \<le> levels ! j))
   \<and> (\<forall>r. decide_level dd levels = Some r \<longleftrightarrow>
          (\<exists>j<length levels. r = int j + 1 \<and> dd \<le> levels ! j
             \<and> (\<forall>j'<length levels. dd \<le> levels ! j' \<longrightarrow> j' \<le> j)))
   \<and> (sorted_wrt (\<ge>) levels \<longrightarrow>
        (\<forall>k. 1 \<le> k \<and> k < length levels \<and> dd \<le> levels ! (k - 1) \<and> levels ! k < dd
              \<longrightarrow> decide_level dd levels = Some (int k))
        \<and> (levels \<noteq> [] \<and> levels ! 0 < dd \<longrightarrow> decide_level dd levels = None))"
proof (intro conjI allI impI)
  show "decide_level dd levels = None \<longleftrightarrow> (\<forall>j<length levels. \<not> dd \<le> levels ! j)"
    by (simp add: decide_level_def decide_loop_None_iff all_set_conv_all_nth)
next
  fix r
  show "decide_level dd levels = Some r \<longleftrightarrow>
          (\<exists>j<length levels. r = int j + 1 \<and> dd \<le> levels ! j
             \<and> (\<forall>j'<length levels. dd \<le> levels ! j' \<longrightarrow> j' \<le> j))"
    by (simp add: decide_level_def decide_loop_Some_iff add.commute)
next
  fix k
  assume "sorted_wrt (\<ge>) levels"
    and "1 \<le> k \<and> k < length levels \<and> dd \<le> levels ! (k - 1) \<and> levels ! k < dd"
  then show "decide_level dd levels = Some (int k)"
    by (simp add: decide_level_monotone)
next
  assume "sorted_wrt (\<ge>) levels" and "levels \<noteq> [] \<and> levels ! 0 < dd"
  then show "decide_level dd levels = None"
    by (simp add: decide_level_above_first)
qed

theorem decide_level_deepest_witness:
  "sorted_wrt (\<ge>) [- 0.30, - 0.55, - 0.75 :: real]
   \<and> (1::nat) \<le> 2 \<and> (2::nat) < length [- 0.30, - 0.55, - 0.75 :: real]
   \<and> (- 0.60 :: real) \<le> [- 0.30, - 0.55, - 0.75] ! (2 - 1)
   \<and> [- 0.30, - 0.55, - 0.75] ! 2 < (- 0.60 :: real)
   \<and> decide_level (- 0.60) [- 0.30, - 0.55, - 0.75] = Some 2"
proof -
  have mono: "sorted_wrt (\<ge>) [- 0.30, - 0.55, - 0.75 :: real]" by simp
  have k: "(1::nat) \<le> 2 \<and> (2::nat) < length [- 0.30, - 0.55, - 0.75 :: real]
      \<and> (- 0.60 :: real) \<le> [- 0.30, - 0.55, - 0.75] ! (2 - 1)
      \<and> [- 0.30, - 0.55, - 0.75] ! 2 < (- 0.60 :: real)" by simp
  have "decide_level (- 0.60) [- 0.30, - 0.55, - 0.75] = Some (int 2)"
    using decide_level_deepest [of "- 0.60" "[- 0.30, - 0.55, - 0.75]"] mono k by blast
  then show ?thesis using mono k by simp
qed

section \<open>Alert decision engine: one evaluation\<close>

text \<open>
  The theorems of this section are about \<open>process_symbol\<close>, the body of the loop of
  \<^verbatim>\<open>main\<close>: the calls it makes and the state it returns. That state is the one a
  run writes to the state file when it completes, and the calls are those the run
  makes for the symbol (lemma \<open>stored_after_completed\<close> in the next section).
\<close>

lemma py_index_hit:
  assumes "decide_level dd levels = Some h"
  shows "py_index levels (h - 1) = Inr (levels ! nat (h - 1))"
  using decide_level_range [OF assms] by (simp add: py_index_def)

text \<open>The loop body in closed form, once the snapshot is there.\<close>

lemma process_symbol_no_hit:
  assumes "fetch_snapshot (download w) symbol = Inr snap"
    and "decide_level (drawdown snap) levels = None"
  shows "process_symbol w now state (symbol, levels) =
           ([Download symbol],
            Inr (state\<lparr>symbols := (symbols state)(symbol \<mapsto>
                   refresh now snap (get_sym_state state symbol))\<rparr>))"
  using assms by (simp add: process_symbol_def notify_def)

lemma process_symbol_not_deeper:
  assumes "fetch_snapshot (download w) symbol = Inr snap"
    and "decide_level (drawdown snap) levels = Some h"
    and "h \<le> effective_level (get_sym_state state symbol) snap"
  shows "process_symbol w now state (symbol, levels) =
           ([Download symbol],
            Inr (state\<lparr>symbols := (symbols state)(symbol \<mapsto>
                   refresh now snap (get_sym_state state symbol))\<rparr>))"
  using assms by (simp add: process_symbol_def notify_def)

lemma process_symbol_deeper:
  assumes "fetch_snapshot (download w) symbol = Inr snap"
    and "decide_level (drawdown snap) levels = Some h"
    and "effective_level (get_sym_state state symbol) snap < h"
    and "issue = \<lparr>i_symbol = symbol, i_level = h, i_snap = snap,
                   i_threshold = levels ! nat (h - 1)\<rparr>"
  shows "process_symbol w now state (symbol, levels) =
           ([Download symbol, IssueCreate issue],
            if gh_ok w issue
            then Inr (state\<lparr>symbols := (symbols state)(symbol \<mapsto>
                   refresh now snap ((get_sym_state state symbol)\<lparr>notified_level := Some h\<rparr>))\<rparr>)
            else Inl CalledProcessError)"
  using assms py_index_hit [OF assms(2)]
  by (simp add: process_symbol_def notify_def create_issue_def)

lemma process_symbol_fetch_error:
  assumes "fetch_snapshot (download w) symbol = Inl e"
  shows "process_symbol w now state (symbol, levels) = ([Download symbol], Inl e)"
  using assms by (simp add: process_symbol_def)

lemma get_sym_state_upd [simp]:
  "get_sym_state (state\<lparr>symbols := (symbols state)(symbol \<mapsto> s)\<rparr>) symbol' =
     (if symbol' = symbol then s else get_sym_state state symbol')"
  by (simp add: get_sym_state_def)

lemma refresh_fields [simp]:
  "notified_level (refresh now snap s) = notified_level s"
  "st_peak_date (refresh now snap s) = Some (peak_date snap)"
  "st_updated_at (refresh now snap s) = Some now"
  "st_last_date (refresh now snap s) = Some (last_date snap)"
  "st_last_close (refresh now snap s) = Some (last_close snap)"
  "st_peak_value (refresh now snap s) = Some (peak_value snap)"
  "st_drawdown (refresh now snap s) = Some (drawdown snap)"
  by (simp_all add: refresh_def)

subsection \<open>The sample world\<close>

lemma replicate_numeral: "replicate (numeral k) x = x # replicate (pred_numeral k) x"
  by (simp add: numeral_eq_Suc)

lemma fetch_sample_world:
  assumes "c \<le> 100"
  shows "fetch_snapshot (download (sample_world c file)) symbol = Inr (sample_snapshot c)"
  using assms
  by (simp add: fetch_snapshot_def sample_world_def sample_frame_def sample_days_def
      sample_snapshot_def df_empty_def iloc_last_def LOOKBACK_TRADING_DAYS_def replicate_numeral)

lemma sample_hits:
  "decide_level (drawdown (sample_snapshot 60)) [- 0.30, - 0.55, - 0.75] = Some 1"
  "decide_level (drawdown (sample_snapshot 40)) [- 0.30, - 0.55, - 0.75] = Some 2"
  "decide_level (drawdown (sample_snapshot 10)) [- 0.30, - 0.55, - 0.75] = Some 3"
  "decide_level (drawdown (sample_snapshot 95)) [- 0.30, - 0.55, - 0.75] = None"
  by (simp_all add: sample_snapshot_def decide_level_def)

subsection \<open>Peak change, escalation, refresh, repetition\<close>

lemma effective_level_reset:
  "st_peak_date s \<noteq> Some (peak_date snap) \<Longrightarrow> effective_level s snap = 0"
  by (simp add: effective_level_def)


lemma effective_level_cases:
  "effective_level s snap = 0 \<or> effective_level s snap = stored_level s"
  by (simp add: effective_level_def)

text \<open>
  The peak change in one evaluation. A stored state with peak date \<open>P\<close> and notified level \<open>n > 0\<close>, a snapshot
  with another peak date and a hit level \<open>h\<close> (which is at least 1, and may be at most
  \<open>n\<close>): the evaluation files one issue, at level \<open>h\<close>, and when the issue is filed the
  symbol's notified level becomes \<open>h\<close>.
\<close>

lemma peak_change_alerts:
  assumes fetch: "fetch_snapshot (download w) symbol = Inr snap"
    and stored: "st_peak_date (get_sym_state state symbol) = Some P"
      "notified_level (get_sym_state state symbol) = Some n" "0 < n"
    and moved: "peak_date snap \<noteq> P"
    and hit: "decide_level (drawdown snap) levels = Some h"
  shows "1 \<le> h \<and>
    (\<exists>issue. i_symbol issue = symbol \<and> i_level issue = h \<and> i_snap issue = snap
       \<and> i_threshold issue = levels ! nat (h - 1)
       \<and> fst (process_symbol w now state (symbol, levels)) = [Download symbol, IssueCreate issue]
       \<and> (gh_ok w issue \<longrightarrow>
            (\<exists>state'. snd (process_symbol w now state (symbol, levels)) = Inr state'
               \<and> notified_level (get_sym_state state' symbol) = Some h)))"
proof -
  have h1: "1 \<le> h" using decide_level_range [OF hit] by simp
  have "effective_level (get_sym_state state symbol) snap = 0"
    using stored(1) moved by (simp add: effective_level_reset)
  then have deeper: "effective_level (get_sym_state state symbol) snap < h" using h1 by simp
  define issue where "issue = \<lparr>i_symbol = symbol, i_level = h, i_snap = snap,
                   i_threshold = levels ! nat (h - 1)\<rparr>"
  note eq = process_symbol_deeper [OF fetch hit deeper issue_def, of now]
  have "i_symbol issue = symbol \<and> i_level issue = h \<and> i_snap issue = snap
       \<and> i_threshold issue = levels ! nat (h - 1)
       \<and> fst (process_symbol w now state (symbol, levels)) = [Download symbol, IssueCreate issue]
       \<and> (gh_ok w issue \<longrightarrow>
            (\<exists>state'. snd (process_symbol w now state (symbol, levels)) = Inr state'
               \<and> notified_level (get_sym_state state' symbol) = Some h))"
    unfolding eq by (simp add: issue_def)
  then show ?thesis using h1 by blast
qed

lemma peak_change_alerts_witness:
  "\<exists>issue state'.
     i_symbol issue = ''TQQQ'' \<and> i_level issue = 1 \<and> i_threshold issue = - 0.30
     \<and> process_symbol (sample_world 60 None) ''now'' (sample_state ''TQQQ'' ''2024-01-10'' 2)
           (''TQQQ'', [- 0.30, - 0.55, - 0.75])
         = ([Download ''TQQQ'', IssueCreate issue], Inr state')
     \<and> notified_level (get_sym_state state' ''TQQQ'') = Some 1"
proof -
  have fetch: "fetch_snapshot (download (sample_world 60 None)) ''TQQQ'' = Inr (sample_snapshot 60)"
    by (rule fetch_sample_world) simp
  have stored: "st_peak_date (get_sym_state (sample_state ''TQQQ'' ''2024-01-10'' 2) ''TQQQ'') = Some ''2024-01-10''"
    "notified_level (get_sym_state (sample_state ''TQQQ'' ''2024-01-10'' 2) ''TQQQ'') = Some 2"
    "(0::int) < 2"
    by (simp_all add: get_sym_state_def sample_state_def empty_sym_state_def)
  have moved: "peak_date (sample_snapshot 60) \<noteq> ''2024-01-10''"
    by (simp add: sample_snapshot_def)
  have hit: "decide_level (drawdown (sample_snapshot 60)) [- 0.30, - 0.55, - 0.75] = Some 1"
    by (rule sample_hits)
  have ok: "gh_ok (sample_world 60 None) issue" for issue
    by (simp add: sample_world_def)
  from peak_change_alerts [OF fetch stored moved hit, of "''now''"] ok
  obtain issue state' where
    "i_symbol issue = ''TQQQ''" "i_level issue = 1"
    "i_threshold issue = [- 0.30, - 0.55, - 0.75] ! nat (1 - 1)"
    "fst (process_symbol (sample_world 60 None) ''now'' (sample_state ''TQQQ'' ''2024-01-10'' 2)
           (''TQQQ'', [- 0.30, - 0.55, - 0.75])) = [Download ''TQQQ'', IssueCreate issue]"
    "snd (process_symbol (sample_world 60 None) ''now'' (sample_state ''TQQQ'' ''2024-01-10'' 2)
           (''TQQQ'', [- 0.30, - 0.55, - 0.75])) = Inr state'"
    "notified_level (get_sym_state state' ''TQQQ'') = Some 1"
    by blast
  then show ?thesis
    by (intro exI [of _ issue] exI [of _ state']) (simp add: prod_eq_iff)
qed

lemma issues_of_simps2 [simp]:
  "issues_of [Download symbol] = []"
  "issues_of [Download symbol, IssueCreate issue] = [issue]"
  by simp_all

text \<open>
  Claim C5. When the hit level \<open>h\<close> of a run is above the stored notified level \<open>n\<close>,
  the evaluation files exactly one issue: at level \<open>h\<close>, with the ladder's threshold
  at position \<open>h\<close> (index \<open>h - 1\<close>, which is in range), and none for the levels between.
\<close>

theorem escalation_single_alert:
  assumes fetch: "fetch_snapshot (download w) symbol = Inr snap"
    and stored: "stored_level (get_sym_state state symbol) = n"
    and hit: "decide_level (drawdown snap) levels = Some h"
    and above: "n < h"
  shows "nat (h - 1) < length levels \<and>
    issues_of (fst (process_symbol w now state (symbol, levels))) =
      [\<lparr>i_symbol = symbol, i_level = h, i_snap = snap, i_threshold = levels ! nat (h - 1)\<rparr>]"
proof -
  have range: "1 \<le> h \<and> h \<le> int (length levels)" by (rule decide_level_range [OF hit])
  have deeper: "effective_level (get_sym_state state symbol) snap < h"
    using effective_level_cases [of "get_sym_state state symbol" snap] stored above range
    by auto
  have "issues_of (fst (process_symbol w now state (symbol, levels))) =
      [\<lparr>i_symbol = symbol, i_level = h, i_snap = snap, i_threshold = levels ! nat (h - 1)\<rparr>]"
    unfolding process_symbol_deeper [OF fetch hit deeper refl, of now] by simp
  moreover have "nat (h - 1) < length levels" using range by linarith
  ultimately show ?thesis by simp
qed

theorem escalation_single_alert_witness:
  "stored_level (get_sym_state (sample_state ''TQQQ'' ''2024-02-29'' 1) ''TQQQ'') = 1
   \<and> decide_level (drawdown (sample_snapshot 10)) [- 0.30, - 0.55, - 0.75] = Some 3
   \<and> issues_of (fst (process_symbol (sample_world 10 None) ''now''
         (sample_state ''TQQQ'' ''2024-02-29'' 1) (''TQQQ'', [- 0.30, - 0.55, - 0.75]))) =
       [\<lparr>i_symbol = ''TQQQ'', i_level = 3, i_snap = sample_snapshot 10, i_threshold = - 0.75\<rparr>]"
proof -
  have fetch: "fetch_snapshot (download (sample_world 10 None)) ''TQQQ'' = Inr (sample_snapshot 10)"
    by (rule fetch_sample_world) simp
  have stored: "stored_level (get_sym_state (sample_state ''TQQQ'' ''2024-02-29'' 1) ''TQQQ'') = 1"
    by (simp add: get_sym_state_def sample_state_def stored_level_def)
  have hit: "decide_level (drawdown (sample_snapshot 10)) [- 0.30, - 0.55, - 0.75] = Some 3"
    by (rule sample_hits)
  have above: "(1::int) < 3" by simp
  from escalation_single_alert [OF fetch stored hit above, of "''now''"] stored hit
  show ?thesis by simp
qed

text \<open>
  The refresh in one evaluation. Whenever the evaluation of a symbol succeeds, the stored mirror fields
  are those of the new snapshot and \<open>updated_at\<close> is the run's time, alert or not;
  and when the hit level is none, or at most the effective notified level, no issue
  is filed and the stored notified level stays as it was.
\<close>

lemma mirror_fields_refreshed:
  assumes run: "process_symbol w now state (symbol, levels) = (cs, Inr state')"
  shows "\<exists>snap. fetch_snapshot (download w) symbol = Inr snap
    \<and> st_last_date (get_sym_state state' symbol) = Some (last_date snap)
    \<and> st_last_close (get_sym_state state' symbol) = Some (last_close snap)
    \<and> st_peak_date (get_sym_state state' symbol) = Some (peak_date snap)
    \<and> st_peak_value (get_sym_state state' symbol) = Some (peak_value snap)
    \<and> st_drawdown (get_sym_state state' symbol) = Some (drawdown snap)
    \<and> st_updated_at (get_sym_state state' symbol) = Some now
    \<and> ((decide_level (drawdown snap) levels = None
          \<or> (\<exists>h. decide_level (drawdown snap) levels = Some h
                \<and> h \<le> effective_level (get_sym_state state symbol) snap))
        \<longrightarrow> issues_of cs = []
            \<and> notified_level (get_sym_state state' symbol)
                = notified_level (get_sym_state state symbol))"
proof (cases "fetch_snapshot (download w) symbol")
  case (Inl e)
  from run show ?thesis unfolding process_symbol_fetch_error [OF Inl] by simp
next
  case (Inr snap)
  show ?thesis
  proof (cases "decide_level (drawdown snap) levels")
    case None
    from run show ?thesis
      unfolding process_symbol_no_hit [OF Inr None] using Inr None by auto
  next
    case (Some h)
    show ?thesis
    proof (cases "h \<le> effective_level (get_sym_state state symbol) snap")
      case True
      from run show ?thesis
        unfolding process_symbol_not_deeper [OF Inr Some True] using Inr Some True by auto
    next
      case False
      then have deeper: "effective_level (get_sym_state state symbol) snap < h" by simp
      from run show ?thesis
        unfolding process_symbol_deeper [OF Inr Some deeper refl]
        using Inr Some False by (auto split: if_splits)
    qed
  qed
qed

lemma mirror_fields_refreshed_witness:
  "\<exists>cs state'.
     process_symbol (sample_world 60 None) ''now'' (sample_state ''TQQQ'' ''2024-02-29'' 2)
        (''TQQQ'', [- 0.30, - 0.55, - 0.75]) = (cs, Inr state')
     \<and> decide_level (drawdown (sample_snapshot 60)) [- 0.30, - 0.55, - 0.75] = Some 1
     \<and> 1 \<le> effective_level (get_sym_state (sample_state ''TQQQ'' ''2024-02-29'' 2) ''TQQQ'')
            (sample_snapshot 60)
     \<and> st_peak_date (get_sym_state state' ''TQQQ'') = Some ''2024-02-29''
     \<and> st_last_date (get_sym_state state' ''TQQQ'') = Some ''2024-03-01''
     \<and> st_last_close (get_sym_state state' ''TQQQ'') = Some 60
     \<and> st_updated_at (get_sym_state state' ''TQQQ'') = Some ''now''
     \<and> issues_of cs = []
     \<and> notified_level (get_sym_state state' ''TQQQ'') = Some 2"
proof -
  have fetch: "fetch_snapshot (download (sample_world 60 None)) ''TQQQ'' = Inr (sample_snapshot 60)"
    by (rule fetch_sample_world) simp
  have hit: "decide_level (drawdown (sample_snapshot 60)) [- 0.30, - 0.55, - 0.75] = Some 1"
    by (rule sample_hits)
  have eff: "effective_level (get_sym_state (sample_state ''TQQQ'' ''2024-02-29'' 2) ''TQQQ'')
            (sample_snapshot 60) = 2"
    by (simp add: effective_level_def stored_level_def get_sym_state_def sample_state_def
        sample_snapshot_def)
  have before: "notified_level (get_sym_state (sample_state ''TQQQ'' ''2024-02-29'' 2) ''TQQQ'') = Some 2"
    by (simp add: get_sym_state_def sample_state_def)
  have le: "1 \<le> effective_level (get_sym_state (sample_state ''TQQQ'' ''2024-02-29'' 2) ''TQQQ'')
            (sample_snapshot 60)" using eff by simp
  obtain cs state' where run:
    "process_symbol (sample_world 60 None) ''now'' (sample_state ''TQQQ'' ''2024-02-29'' 2)
        (''TQQQ'', [- 0.30, - 0.55, - 0.75]) = (cs, Inr state')"
    using process_symbol_not_deeper [OF fetch hit le] by blast
  from mirror_fields_refreshed [OF run] fetch hit le before
  have "st_peak_date (get_sym_state state' ''TQQQ'') = Some (peak_date (sample_snapshot 60))
     \<and> st_last_date (get_sym_state state' ''TQQQ'') = Some (last_date (sample_snapshot 60))
     \<and> st_last_close (get_sym_state state' ''TQQQ'') = Some (last_close (sample_snapshot 60))
     \<and> st_updated_at (get_sym_state state' ''TQQQ'') = Some ''now''
     \<and> issues_of cs = []
     \<and> notified_level (get_sym_state state' ''TQQQ'') = Some 2"
    by auto
  then have "st_peak_date (get_sym_state state' ''TQQQ'') = Some ''2024-02-29''
     \<and> st_last_date (get_sym_state state' ''TQQQ'') = Some ''2024-03-01''
     \<and> st_last_close (get_sym_state state' ''TQQQ'') = Some 60
     \<and> st_updated_at (get_sym_state state' ''TQQQ'') = Some ''now''
     \<and> issues_of cs = []
     \<and> notified_level (get_sym_state state' ''TQQQ'') = Some 2"
    by (simp add: sample_snapshot_def)
  with run hit le show ?thesis by blast
qed

lemma stored_level_refresh [simp]: "stored_level (refresh now snap s) = stored_level s"
  by (simp add: stored_level_def)




section \<open>The run\<close>

subsection \<open>The loop body and the loop\<close>

lemma issues_of_append [simp]: "issues_of (cs @ cs') = issues_of cs @ issues_of cs'"
  by (induction cs rule: issues_of.induct) simp_all

lemma in_issues_of: "issue \<in> set (issues_of cs) \<longleftrightarrow> IssueCreate issue \<in> set cs"
  by (induction cs rule: issues_of.induct) auto

text \<open>The four ways the loop body can end.\<close>

lemma process_symbol_cases:
  obtains
    (fetch_error) e where
      "fetch_snapshot (download w) symbol = Inl e"
      "process_symbol w now state (symbol, levels) = ([Download symbol], Inl e)"
  | (quiet) snap where
      "fetch_snapshot (download w) symbol = Inr snap"
      "decide_level (drawdown snap) levels = None
         \<or> (\<exists>h. decide_level (drawdown snap) levels = Some h
                \<and> h \<le> effective_level (get_sym_state state symbol) snap)"
      "process_symbol w now state (symbol, levels) =
         ([Download symbol],
          Inr (state\<lparr>symbols := (symbols state)(symbol \<mapsto>
                 refresh now snap (get_sym_state state symbol))\<rparr>))"
  | (alert) snap h issue where
      "fetch_snapshot (download w) symbol = Inr snap"
      "decide_level (drawdown snap) levels = Some h"
      "effective_level (get_sym_state state symbol) snap < h"
      "issue = \<lparr>i_symbol = symbol, i_level = h, i_snap = snap,
                 i_threshold = levels ! nat (h - 1)\<rparr>"
      "gh_ok w issue"
      "process_symbol w now state (symbol, levels) =
         ([Download symbol, IssueCreate issue],
          Inr (state\<lparr>symbols := (symbols state)(symbol \<mapsto>
                 refresh now snap ((get_sym_state state symbol)\<lparr>notified_level := Some h\<rparr>))\<rparr>))"
  | (gh_error) snap h issue where
      "fetch_snapshot (download w) symbol = Inr snap"
      "decide_level (drawdown snap) levels = Some h"
      "effective_level (get_sym_state state symbol) snap < h"
      "issue = \<lparr>i_symbol = symbol, i_level = h, i_snap = snap,
                 i_threshold = levels ! nat (h - 1)\<rparr>"
      "\<not> gh_ok w issue"
      "process_symbol w now state (symbol, levels) =
         ([Download symbol, IssueCreate issue], Inl CalledProcessError)"
proof (cases "fetch_snapshot (download w) symbol")
  case (Inl e)
  then show ?thesis using fetch_error process_symbol_fetch_error by blast
next
  case (Inr snap)
  show ?thesis
  proof (cases "decide_level (drawdown snap) levels")
    case None
    then show ?thesis using quiet [OF Inr] process_symbol_no_hit [OF Inr None] by blast
  next
    case (Some h)
    show ?thesis
    proof (cases "h \<le> effective_level (get_sym_state state symbol) snap")
      case True
      then show ?thesis
        using quiet [OF Inr] Some process_symbol_not_deeper [OF Inr Some True] by blast
    next
      case False
      then have deeper: "effective_level (get_sym_state state symbol) snap < h" by simp
      define issue where "issue = \<lparr>i_symbol = symbol, i_level = h, i_snap = snap,
                 i_threshold = levels ! nat (h - 1)\<rparr>"
      note eq = process_symbol_deeper [OF Inr Some deeper issue_def, of now]
      show ?thesis
      proof (cases "gh_ok w issue")
        case True
        then show ?thesis using alert [OF Inr Some deeper issue_def] eq by simp
      next
        case False
        then show ?thesis using gh_error [OF Inr Some deeper issue_def] eq by simp
      qed
    qed
  qed
qed

lemma process_symbol_calls:
  assumes "process_symbol w now state (symbol, levels) = (cs, r)"
  shows "cs \<noteq> [] \<and> (\<forall>c\<in>set cs. call_symbol c = symbol)
    \<and> (\<forall>c\<in>set (butlast cs). \<not> call_fails w c) \<and> (call_fails w (last cs) \<longleftrightarrow> isl r)"
  using assms by (cases rule: process_symbol_cases [of w symbol now state levels]) auto

lemma process_symbol_frame:
  assumes "process_symbol w now state (symbol, levels) = (cs, Inr state')"
    and "symbol' \<noteq> symbol"
  shows "symbols state' symbol' = symbols state symbol'"
  using assms by (cases rule: process_symbol_cases [of w symbol now state levels]) auto

lemma get_sym_state_cong:
  "symbols state2 symbol = symbols state symbol \<Longrightarrow>
     get_sym_state state2 symbol = get_sym_state state symbol"
  by (simp add: get_sym_state_def)

lemma process_symbol_local:
  assumes same: "symbols state2 symbol = symbols state symbol"
    and run: "process_symbol w now state2 (symbol, levels) = (cs, Inr state2')"
  shows "\<exists>state'. process_symbol w now state (symbol, levels) = (cs, Inr state')
           \<and> symbols state' symbol = symbols state2' symbol"
proof -
  note g = get_sym_state_cong [OF same]
  show ?thesis
    using run
    by (cases rule: process_symbol_cases [of w symbol now state levels];
        cases rule: process_symbol_cases [of w symbol now state2 levels])
       (auto simp: g)
qed

lemma main_loop_Cons_Inr:
  assumes "main_loop w now (item # items) state = (cs, Inr state')"
  obtains cs1 st1 cs2 where
    "process_symbol w now state item = (cs1, Inr st1)"
    "main_loop w now items st1 = (cs2, Inr state')"
    "cs = cs1 @ cs2"
  using assms by (auto split: prod.splits sum.splits)

lemma main_loop_call_symbols:
  "main_loop w now items state = (cs, r) \<Longrightarrow> \<forall>c\<in>set cs. call_symbol c \<in> fst ` set items"
proof (induction items arbitrary: state cs r)
  case Nil
  then show ?case by simp
next
  case (Cons item items)
  obtain symbol levels where item: "item = (symbol, levels)" by (cases item)
  obtain cs1 r1 where p: "process_symbol w now state (symbol, levels) = (cs1, r1)"
    by (cases "process_symbol w now state (symbol, levels)")
  have c1: "\<forall>c\<in>set cs1. call_symbol c = symbol" using process_symbol_calls [OF p] by simp
  show ?case
  proof (cases r1)
    case (Inl e)
    with Cons.prems p item have "cs = cs1" by simp
    with c1 item show ?thesis by simp
  next
    case (Inr st1)
    obtain cs2 r2 where m: "main_loop w now items st1 = (cs2, r2)"
      by (cases "main_loop w now items st1")
    with Cons.prems p item Inr have cs: "cs = cs1 @ cs2" by simp
    from Cons.IH [OF m] c1 item show ?thesis unfolding cs by auto
  qed
qed

lemma main_loop_frame:
  "main_loop w now items state = (cs, Inr state') \<Longrightarrow> symbol \<notin> fst ` set items \<Longrightarrow>
     symbols state' symbol = symbols state symbol"
proof (induction items arbitrary: state cs)
  case Nil
  then show ?case by simp
next
  case (Cons item items)
  obtain symbol0 levels0 where item: "item = (symbol0, levels0)" by (cases item)
  from Cons.prems(1) obtain cs1 st1 cs2 where
    p: "process_symbol w now state item = (cs1, Inr st1)"
    and m: "main_loop w now items st1 = (cs2, Inr state')"
    by (rule main_loop_Cons_Inr)
  have ne: "symbol \<noteq> symbol0" and notin: "symbol \<notin> fst ` set items"
    using Cons.prems(2) item by auto
  have "symbols st1 symbol = symbols state symbol"
    using process_symbol_frame [OF p [unfolded item] ne] .
  with Cons.IH [OF m notin] show ?case by simp
qed

text \<open>
  In a run of the loop that succeeds, each configured symbol is evaluated as if on
  the initial state: same calls, same stored dictionary.
\<close>

lemma main_loop_symbol:
  assumes "main_loop w now items state = (cs, Inr state')"
    and "distinct (map fst items)" and "(symbol, levels) \<in> set items"
  shows "\<exists>cs1 st1. process_symbol w now state (symbol, levels) = (cs1, Inr st1)
           \<and> symbols state' symbol = symbols st1 symbol
           \<and> filter (\<lambda>c. call_symbol c = symbol) cs = cs1"
  using assms
proof (induction items arbitrary: state cs)
  case Nil
  then show ?case by simp
next
  case (Cons item items)
  obtain symbol0 levels0 where item: "item = (symbol0, levels0)" by (cases item)
  from Cons.prems(1) obtain csA stA csB where
    p: "process_symbol w now state (symbol0, levels0) = (csA, Inr stA)"
    and m: "main_loop w now items stA = (csB, Inr state')"
    and cs: "cs = csA @ csB"
    unfolding item by (rule main_loop_Cons_Inr)
  have dist: "distinct (map fst items)" and fresh: "symbol0 \<notin> fst ` set items"
    using Cons.prems(2) item by auto
  have cA: "\<forall>c\<in>set csA. call_symbol c = symbol0" using process_symbol_calls [OF p] by simp
  have cB: "\<forall>c\<in>set csB. call_symbol c \<in> fst ` set items" by (rule main_loop_call_symbols [OF m])
  show ?case
  proof (cases "symbol = symbol0")
    case True
    have "levels = levels0"
    proof -
      from Cons.prems(3) item True have "(symbol0, levels) = (symbol0, levels0) \<or> (symbol0, levels) \<in> set items"
        by simp
      with fresh show ?thesis by force
    qed
    have "filter (\<lambda>c. call_symbol c = symbol0) csA = csA" using cA by simp
    moreover have "filter (\<lambda>c. call_symbol c = symbol0) csB = []"
      using cB fresh by (auto simp: filter_empty_conv)
    moreover have "symbols state' symbol0 = symbols stA symbol0"
      by (rule main_loop_frame [OF m fresh])
    ultimately show ?thesis using p True \<open>levels = levels0\<close> cs by simp
  next
    case False
    with Cons.prems(3) item have mem: "(symbol, levels) \<in> set items" by simp
    from Cons.IH [OF m dist mem] obtain cs1 st1 where
      q: "process_symbol w now stA (symbol, levels) = (cs1, Inr st1)"
      and s: "symbols state' symbol = symbols st1 symbol"
      and f: "filter (\<lambda>c. call_symbol c = symbol) csB = cs1" by blast
    have same: "symbols stA symbol = symbols state symbol"
      by (rule process_symbol_frame [OF p False])
    from process_symbol_local [OF same q] obtain st1' where
      q': "process_symbol w now state (symbol, levels) = (cs1, Inr st1')"
      and s': "symbols st1' symbol = symbols st1 symbol" by blast
    have "filter (\<lambda>c. call_symbol c = symbol) csA = []"
      using cA False by (auto simp: filter_empty_conv)
    with q' s s' f cs show ?thesis by simp
  qed
qed

lemma distinct_RULES: "distinct (map fst RULES)"
  by (simp add: RULES_def)

lemma main_raised:
  assumes "raised (main w) = Some e"
  shows "file_after (main w) = state_file w"
  using assms by (simp add: main_def split: prod.splits sum.splits)

lemma main_completed:
  assumes "raised (main w) = None"
  obtains state' where
    "main_loop w (utc_now w) RULES (load_state (state_file w)) = (calls (main w), Inr state')"
    "file_after (main w) = Some state'"
  using assms by (auto simp: main_def save_state_def split: prod.splits sum.splits)

subsection \<open>Failure\<close>

lemma main_loop_success_calls:
  "main_loop w now items state = (cs, Inr state') \<Longrightarrow> \<forall>c\<in>set cs. \<not> call_fails w c"
proof (induction items arbitrary: state cs)
  case Nil
  then show ?case by simp
next
  case (Cons item items)
  obtain symbol levels where item: "item = (symbol, levels)" by (cases item)
  from Cons.prems obtain cs1 st1 cs2 where
    p: "process_symbol w now state (symbol, levels) = (cs1, Inr st1)"
    and m: "main_loop w now items st1 = (cs2, Inr state')"
    and cs: "cs = cs1 @ cs2"
    unfolding item by (rule main_loop_Cons_Inr)
  have "cs1 \<noteq> []" "\<forall>c\<in>set (butlast cs1). \<not> call_fails w c" "\<not> call_fails w (last cs1)"
    using process_symbol_calls [OF p] by simp_all
  then have "\<forall>c\<in>set cs1. \<not> call_fails w c"
    by (metis append_butlast_last_id in_set_butlast_appendI insert_iff list.set(1) list.set(2) set_append Un_iff empty_iff)
  with Cons.IH [OF m] show ?case unfolding cs by auto
qed

lemma main_loop_failure:
  "main_loop w now items state = (cs, Inl e) \<Longrightarrow>
     \<exists>pre symbol levels post. items = pre @ (symbol, levels) # post \<and> cs \<noteq> []
        \<and> call_symbol (last cs) = symbol \<and> call_fails w (last cs)
        \<and> (\<forall>c\<in>set cs. call_symbol c \<in> fst ` set (pre @ [(symbol, levels)]))"
proof (induction items arbitrary: state cs)
  case Nil
  then show ?case by simp
next
  case (Cons item items)
  obtain symbol0 levels0 where item: "item = (symbol0, levels0)" by (cases item)
  obtain cs1 r1 where p: "process_symbol w now state (symbol0, levels0) = (cs1, r1)"
    by (cases "process_symbol w now state (symbol0, levels0)")
  note c1 = process_symbol_calls [OF p]
  show ?case
  proof (cases r1)
    case (Inl e1)
    with Cons.prems p item have cs: "cs = cs1" by simp
    have "item # items = [] @ (symbol0, levels0) # items" using item by simp
    moreover have "cs \<noteq> []" "call_symbol (last cs) = symbol0" "call_fails w (last cs)"
      "\<forall>c\<in>set cs. call_symbol c \<in> fst ` set ([] @ [(symbol0, levels0)])"
      using c1 Inl cs by simp_all
    ultimately show ?thesis by blast
  next
    case (Inr st1)
    obtain cs2 r2 where m: "main_loop w now items st1 = (cs2, r2)"
      by (cases "main_loop w now items st1")
    with Cons.prems p item Inr have cs: "cs = cs1 @ cs2" and r2: "r2 = Inl e" by simp_all
    from Cons.IH [OF m [unfolded r2]] obtain pre symbol levels post where
      items: "items = pre @ (symbol, levels) # post" and ne: "cs2 \<noteq> []"
      and l: "call_symbol (last cs2) = symbol" "call_fails w (last cs2)"
      and a: "\<forall>c\<in>set cs2. call_symbol c \<in> fst ` set (pre @ [(symbol, levels)])" by blast
    have "item # items = (item # pre) @ (symbol, levels) # post" using items by simp
    moreover have "cs \<noteq> []" "call_symbol (last cs) = symbol" "call_fails w (last cs)"
      using ne l cs by simp_all
    moreover have "\<forall>c\<in>set cs. call_symbol c \<in> fst ` set ((item # pre) @ [(symbol, levels)])"
      using a c1 item unfolding cs by auto
    ultimately show ?thesis by blast
  qed
qed

text \<open>
  Claim C8. A run raises exactly when one of its calls (a download with
  \<open>fetch_snapshot\<close>, or the creation of an issue) raises. Then the state file is left
  as it was, the failing call is the last call of the run, and no call is made for a
  symbol that comes after the failing one in \<open>RULES\<close>.
\<close>

theorem failure_aborts_run:
  "(raised (main w) \<noteq> None \<longleftrightarrow> (\<exists>c\<in>set (calls (main w)). call_fails w c))
   \<and> (raised (main w) \<noteq> None \<longrightarrow>
        file_after (main w) = state_file w
        \<and> call_fails w (last (calls (main w)))
        \<and> (\<exists>pre levels post. RULES = pre @ (call_symbol (last (calls (main w))), levels) # post
              \<and> (\<forall>c\<in>set (calls (main w)). call_symbol c \<notin> fst ` set post)))"
proof (cases "main_loop w (utc_now w) RULES (load_state (state_file w))")
  case (Pair cs r)
  show ?thesis
  proof (cases r)
    case (Inr state')
    with Pair have m: "calls (main w) = cs" "raised (main w) = None"
      by (simp_all add: main_def)
    have "\<forall>c\<in>set cs. \<not> call_fails w c"
      using main_loop_success_calls Pair Inr by blast
    with m show ?thesis by simp
  next
    case (Inl e)
    with Pair have m: "calls (main w) = cs" "raised (main w) = Some e"
      "file_after (main w) = state_file w"
      by (simp_all add: main_def)
    from main_loop_failure [OF Pair [unfolded Inl]] obtain pre symbol levels post where
      items: "RULES = pre @ (symbol, levels) # post" and ne: "cs \<noteq> []"
      and l: "call_symbol (last cs) = symbol" "call_fails w (last cs)"
      and a: "\<forall>c\<in>set cs. call_symbol c \<in> fst ` set (pre @ [(symbol, levels)])" by blast
    have "distinct (map fst (pre @ (symbol, levels) # post))"
      using distinct_RULES items by simp
    then have disj: "fst ` set (pre @ [(symbol, levels)]) \<inter> fst ` set post = {}"
      by auto
    have skipped: "\<forall>c\<in>set cs. call_symbol c \<notin> fst ` set post"
      using a disj by blast
    have "\<exists>c\<in>set cs. call_fails w c" using ne l(2) last_in_set by blast
    moreover have "\<exists>pre levels post. RULES = pre @ (call_symbol (last cs), levels) # post
              \<and> (\<forall>c\<in>set cs. call_symbol c \<notin> fst ` set post)"
      using items l(1) skipped by blast
    ultimately show ?thesis using m l(2) by simp
  qed
qed

lemma fetch_snapshot_cong:
  "d1 symbol = d2 symbol \<Longrightarrow> fetch_snapshot d1 symbol = fetch_snapshot d2 symbol"
  by (simp add: fetch_snapshot_def)

lemma fetch_sample_world_outage:
  assumes "c \<le> 100"
  shows "fetch_snapshot (download (sample_world_outage down c file)) symbol =
           (if symbol = down then Inl (FetchFailed symbol) else Inr (sample_snapshot c))"
proof (cases "symbol = down")
  case True
  then show ?thesis by (simp add: fetch_snapshot_def sample_world_outage_def)
next
  case False
  have "fetch_snapshot (download (sample_world_outage down c file)) symbol =
          fetch_snapshot (download (sample_world c file)) symbol"
    by (rule fetch_snapshot_cong) (simp add: sample_world_outage_def False)
  then show ?thesis using False fetch_sample_world [OF assms] by simp
qed

lemma sample_world_fields [simp]:
  "gh_ok (sample_world c file) issue"
  "utc_now (sample_world c file) = ''2024-03-01T21:30:00+00:00''"
  "state_file (sample_world c file) = file"
  "gh_ok (sample_world_outage down c file) issue"
  "utc_now (sample_world_outage down c file) = ''2024-03-01T21:30:00+00:00''"
  "state_file (sample_world_outage down c file) = file"
  by (simp_all add: sample_world_def sample_world_outage_def)

lemmas run_defs =
  main_def RULES_def process_symbol_def notify_def create_issue_def py_index_def
  decide_level_def effective_level_def stored_level_def get_sym_state_def load_state_def
  save_state_def sample_state_def sample_snapshot_def empty_sym_state_def refresh_def Let_def

lemma main_outage:
  "raised (main (sample_world_outage ''SOXL'' 60 (Some (sample_state ''TQQQ'' ''2024-01-10'' 2))))
     = Some (FetchFailed ''SOXL'')"
  "calls (main (sample_world_outage ''SOXL'' 60 (Some (sample_state ''TQQQ'' ''2024-01-10'' 2))))
     = [Download ''TQQQ'',
        IssueCreate \<lparr>i_symbol = ''TQQQ'', i_level = 1, i_snap = sample_snapshot 60,
                     i_threshold = - 0.30\<rparr>,
        Download ''SOXL'']"
  by (simp_all add: run_defs fetch_sample_world_outage)

lemma main_quiet:
  "raised (main (sample_world 95 (Some (sample_state ''TQQQ'' ''2024-01-10'' 2)))) = None"
  "calls (main (sample_world 95 (Some (sample_state ''TQQQ'' ''2024-01-10'' 2))))
     = [Download ''TQQQ'', Download ''SOXL'', Download ''TECL'']"
  by (simp_all add: run_defs fetch_sample_world)

lemma main_alert:
  "raised (main (sample_world 60 (Some (sample_state ''TQQQ'' ''2024-01-10'' 2)))) = None"
  "calls (main (sample_world 60 (Some (sample_state ''TQQQ'' ''2024-01-10'' 2))))
     = [Download ''TQQQ'',
        IssueCreate \<lparr>i_symbol = ''TQQQ'', i_level = 1, i_snap = sample_snapshot 60,
                     i_threshold = - 0.30\<rparr>,
        Download ''SOXL'',
        Download ''TECL'',
        IssueCreate \<lparr>i_symbol = ''TECL'', i_level = 1, i_snap = sample_snapshot 60,
                     i_threshold = - 0.25\<rparr>]"
  by (simp_all add: run_defs fetch_sample_world)

theorem failure_aborts_run_witness:
  "raised (main (sample_world_outage ''SOXL'' 60 (Some (sample_state ''TQQQ'' ''2024-01-10'' 2))))
     = Some (FetchFailed ''SOXL'')
   \<and> file_after (main (sample_world_outage ''SOXL'' 60 (Some (sample_state ''TQQQ'' ''2024-01-10'' 2))))
     = Some (sample_state ''TQQQ'' ''2024-01-10'' 2)
   \<and> call_fails (sample_world_outage ''SOXL'' 60 (Some (sample_state ''TQQQ'' ''2024-01-10'' 2)))
        (Download ''SOXL'')
   \<and> calls (main (sample_world_outage ''SOXL'' 60 (Some (sample_state ''TQQQ'' ''2024-01-10'' 2))))
     = [Download ''TQQQ'',
        IssueCreate \<lparr>i_symbol = ''TQQQ'', i_level = 1, i_snap = sample_snapshot 60,
                     i_threshold = - 0.30\<rparr>,
        Download ''SOXL'']"
proof -
  let ?w = "sample_world_outage ''SOXL'' 60 (Some (sample_state ''TQQQ'' ''2024-01-10'' 2))"
  have r: "raised (main ?w) \<noteq> None" by (simp add: main_outage)
  from failure_aborts_run [of ?w] r
  have "file_after (main ?w) = state_file ?w" "call_fails ?w (last (calls (main ?w)))"
    by blast+
  then show ?thesis by (simp add: main_outage)
qed

subsection \<open>What a run stores\<close>

lemma stored_after_completed:
  assumes "raised (main w) = None" and "(symbol, levels) \<in> set RULES"
  obtains cs1 st1 where
    "process_symbol w (utc_now w) (load_state (state_file w)) (symbol, levels) = (cs1, Inr st1)"
    "stored_after w symbol = get_sym_state st1 symbol"
    "filter (\<lambda>c. call_symbol c = symbol) (calls (main w)) = cs1"
proof -
  from assms(1) obtain state' where
    m: "main_loop w (utc_now w) RULES (load_state (state_file w)) = (calls (main w), Inr state')"
    and f: "file_after (main w) = Some state'"
    by (rule main_completed)
  from main_loop_symbol [OF m distinct_RULES assms(2)] obtain cs1 st1 where
    p: "process_symbol w (utc_now w) (load_state (state_file w)) (symbol, levels) = (cs1, Inr st1)"
    and s: "symbols state' symbol = symbols st1 symbol"
    and c: "filter (\<lambda>c. call_symbol c = symbol) (calls (main w)) = cs1" by blast
  have "stored_after w symbol = get_sym_state st1 symbol"
    using f s by (simp add: stored_after_def load_state_def get_sym_state_def)
  with p c show ?thesis using that by blast
qed

lemma stored_after_other:
  assumes "raised (main w) = None" and "symbol \<notin> fst ` set RULES"
  shows "stored_after w symbol = stored_before w symbol"
proof -
  from assms(1) obtain state' where
    m: "main_loop w (utc_now w) RULES (load_state (state_file w)) = (calls (main w), Inr state')"
    and f: "file_after (main w) = Some state'"
    by (rule main_completed)
  have "symbols state' symbol = symbols (load_state (state_file w)) symbol"
    by (rule main_loop_frame [OF m assms(2)])
  then show ?thesis
    using f by (simp add: stored_after_def stored_before_def load_state_def get_sym_state_def)
qed

lemma stored_after_raised:
  assumes "raised (main w) = Some e"
  shows "stored_after w symbol = stored_before w symbol"
  using main_raised [OF assms] by (simp add: stored_after_def stored_before_def)

lemma process_symbol_notified:
  assumes "process_symbol w now state (symbol, levels) = (cs, Inr st1)"
    and "notified_level (get_sym_state st1 symbol) \<noteq> notified_level (get_sym_state state symbol)"
  shows "\<exists>issue. IssueCreate issue \<in> set cs \<and> i_symbol issue = symbol
           \<and> notified_level (get_sym_state st1 symbol) = Some (i_level issue)"
  using assms by (cases rule: process_symbol_cases [of w symbol now state levels]) auto

lemma process_symbol_silent:
  assumes "process_symbol w now state (symbol, levels) = (cs, Inr st1)"
    and "fetch_snapshot (download w) symbol = Inr snap"
    and "issues_of cs = []"
  shows "st_peak_date (get_sym_state st1 symbol) = Some (peak_date snap)
           \<and> notified_level (get_sym_state st1 symbol) = notified_level (get_sym_state state symbol)"
  using assms by (cases rule: process_symbol_cases [of w symbol now state levels]) auto

text \<open>
  Claim C6. In every run and for every symbol, the notified level in the state file
  changes only when the run files an issue for that symbol, and then it is that
  issue's level. In particular a completed run whose snapshot has another peak date
  than the stored one, and which files no issue for the symbol, stores the new peak
  date and keeps the notified level of the previous epoch.
\<close>

theorem notified_level_changes_only_on_alert:
  "(notified_level (stored_after w symbol) \<noteq> notified_level (stored_before w symbol) \<longrightarrow>
      (\<exists>issue\<in>set (issues_of (calls (main w))).
          i_symbol issue = symbol
          \<and> notified_level (stored_after w symbol) = Some (i_level issue)))
   \<and> (\<forall>levels snap.
         (symbol, levels) \<in> set RULES \<and> raised (main w) = None
         \<and> fetch_snapshot (download w) symbol = Inr snap
         \<and> st_peak_date (stored_before w symbol) \<noteq> Some (peak_date snap)
         \<and> (\<forall>issue\<in>set (issues_of (calls (main w))). i_symbol issue \<noteq> symbol)
       \<longrightarrow> st_peak_date (stored_after w symbol) = Some (peak_date snap)
           \<and> notified_level (stored_after w symbol) = notified_level (stored_before w symbol))"
proof (intro conjI allI impI)
  assume changed: "notified_level (stored_after w symbol) \<noteq> notified_level (stored_before w symbol)"
  show "\<exists>issue\<in>set (issues_of (calls (main w))).
          i_symbol issue = symbol \<and> notified_level (stored_after w symbol) = Some (i_level issue)"
  proof (cases "raised (main w)")
    case (Some e)
    with changed stored_after_raised show ?thesis by simp
  next
    case None
    show ?thesis
    proof (cases "symbol \<in> fst ` set RULES")
      case False
      with changed stored_after_other [OF None] show ?thesis by simp
    next
      case True
      then obtain levels where mem: "(symbol, levels) \<in> set RULES" by auto
      from stored_after_completed [OF None mem] obtain cs1 st1 where
        p: "process_symbol w (utc_now w) (load_state (state_file w)) (symbol, levels) = (cs1, Inr st1)"
        and s: "stored_after w symbol = get_sym_state st1 symbol"
        and c: "filter (\<lambda>c. call_symbol c = symbol) (calls (main w)) = cs1" by blast
      have "notified_level (get_sym_state st1 symbol)
              \<noteq> notified_level (get_sym_state (load_state (state_file w)) symbol)"
        using changed s by (simp add: stored_before_def)
      from process_symbol_notified [OF p this] obtain issue where
        i: "IssueCreate issue \<in> set cs1" "i_symbol issue = symbol"
          "notified_level (get_sym_state st1 symbol) = Some (i_level issue)" by blast
      have "IssueCreate issue \<in> set (calls (main w))" using i(1) c by auto
      then have "issue \<in> set (issues_of (calls (main w)))" by (simp add: in_issues_of)
      with i s show ?thesis by auto
    qed
  qed
next
  fix levels snap
  assume a: "(symbol, levels) \<in> set RULES \<and> raised (main w) = None
         \<and> fetch_snapshot (download w) symbol = Inr snap
         \<and> st_peak_date (stored_before w symbol) \<noteq> Some (peak_date snap)
         \<and> (\<forall>issue\<in>set (issues_of (calls (main w))). i_symbol issue \<noteq> symbol)"
  then have mem: "(symbol, levels) \<in> set RULES" and none: "raised (main w) = None"
    and fetch: "fetch_snapshot (download w) symbol = Inr snap"
    and quiet: "\<forall>issue\<in>set (issues_of (calls (main w))). i_symbol issue \<noteq> symbol"
    by simp_all
  from stored_after_completed [OF none mem] obtain cs1 st1 where
    p: "process_symbol w (utc_now w) (load_state (state_file w)) (symbol, levels) = (cs1, Inr st1)"
    and s: "stored_after w symbol = get_sym_state st1 symbol"
    and c: "filter (\<lambda>c. call_symbol c = symbol) (calls (main w)) = cs1" by blast
  have "issues_of cs1 = []"
  proof (rule ccontr)
    assume "issues_of cs1 \<noteq> []"
    then obtain issue where "issue \<in> set (issues_of cs1)" by (cases "issues_of cs1") auto
    then have "IssueCreate issue \<in> set cs1" by (simp add: in_issues_of)
    then have "IssueCreate issue \<in> set (calls (main w))" "call_symbol (IssueCreate issue) = symbol"
      using c by auto
    then show False using quiet by (auto simp: in_issues_of)
  qed
  from process_symbol_silent [OF p fetch this] s
  have "st_peak_date (stored_after w symbol) = Some (peak_date snap)"
    "notified_level (stored_after w symbol) = notified_level (stored_before w symbol)"
    by (simp_all add: stored_before_def)
  then show "st_peak_date (stored_after w symbol) = Some (peak_date snap)"
    and "notified_level (stored_after w symbol) = notified_level (stored_before w symbol)"
    by simp_all
qed

lemma sample_stored_before:
  "stored_before (sample_world c (Some (sample_state ''TQQQ'' ''2024-01-10'' 2))) ''TQQQ''
     = empty_sym_state\<lparr>st_peak_date := Some ''2024-01-10'', notified_level := Some 2\<rparr>"
  by (simp add: stored_before_def get_sym_state_def load_state_def sample_state_def)

lemma sample_stored_after:
  "notified_level (stored_after (sample_world 95 (Some (sample_state ''TQQQ'' ''2024-01-10'' 2))) ''TQQQ'')
     = Some 2"
  "st_peak_date (stored_after (sample_world 95 (Some (sample_state ''TQQQ'' ''2024-01-10'' 2))) ''TQQQ'')
     = Some ''2024-02-29''"
  "notified_level (stored_after (sample_world 60 (Some (sample_state ''TQQQ'' ''2024-01-10'' 2))) ''TQQQ'')
     = Some 1"
  by (simp_all add: stored_after_def run_defs fetch_sample_world)

theorem notified_level_changes_only_on_alert_witness:
  "(\<exists>issue. IssueCreate issue \<in>
        set (calls (main (sample_world 60 (Some (sample_state ''TQQQ'' ''2024-01-10'' 2)))))
      \<and> i_symbol issue = ''TQQQ'' \<and> i_level issue = 1
      \<and> notified_level (stored_before (sample_world 60 (Some (sample_state ''TQQQ'' ''2024-01-10'' 2)))
           ''TQQQ'') = Some 2
      \<and> notified_level (stored_after (sample_world 60 (Some (sample_state ''TQQQ'' ''2024-01-10'' 2)))
           ''TQQQ'') = Some 1)
   \<and> calls (main (sample_world 95 (Some (sample_state ''TQQQ'' ''2024-01-10'' 2))))
        = [Download ''TQQQ'', Download ''SOXL'', Download ''TECL'']
   \<and> st_peak_date (stored_before (sample_world 95 (Some (sample_state ''TQQQ'' ''2024-01-10'' 2)))
        ''TQQQ'') = Some ''2024-01-10''
   \<and> st_peak_date (stored_after (sample_world 95 (Some (sample_state ''TQQQ'' ''2024-01-10'' 2)))
        ''TQQQ'') = Some ''2024-02-29''
   \<and> notified_level (stored_after (sample_world 95 (Some (sample_state ''TQQQ'' ''2024-01-10'' 2)))
        ''TQQQ'') = Some 2"
proof -
  let ?file = "Some (sample_state ''TQQQ'' ''2024-01-10'' 2)"
  let ?loud = "sample_world 60 ?file" and ?quiet = "sample_world 95 ?file"
  have before: "notified_level (stored_before ?loud ''TQQQ'') = Some 2"
    "notified_level (stored_before ?quiet ''TQQQ'') = Some 2"
    "st_peak_date (stored_before ?quiet ''TQQQ'') = Some ''2024-01-10''"
    by (simp_all add: sample_stored_before)
  have changed: "notified_level (stored_after ?loud ''TQQQ'') \<noteq> notified_level (stored_before ?loud ''TQQQ'')"
    by (simp add: before sample_stored_after)
  from notified_level_changes_only_on_alert [of ?loud "''TQQQ''"] changed
  obtain issue where i: "issue \<in> set (issues_of (calls (main ?loud)))" "i_symbol issue = ''TQQQ''"
    "notified_level (stored_after ?loud ''TQQQ'') = Some (i_level issue)" by blast
  then have first: "IssueCreate issue \<in> set (calls (main ?loud))" "i_level issue = 1"
    by (simp_all add: in_issues_of sample_stored_after)
  have mem: "(''TQQQ'', [- 0.30, - 0.55, - 0.75]) \<in> set RULES" by (simp add: RULES_def)
  have fetch: "fetch_snapshot (download ?quiet) ''TQQQ'' = Inr (sample_snapshot 95)"
    by (rule fetch_sample_world) simp
  have moved: "st_peak_date (stored_before ?quiet ''TQQQ'') \<noteq> Some (peak_date (sample_snapshot 95))"
    by (simp add: before sample_snapshot_def)
  have silent: "\<forall>issue\<in>set (issues_of (calls (main ?quiet))). i_symbol issue \<noteq> ''TQQQ''"
    by (simp add: main_quiet)
  from notified_level_changes_only_on_alert [of ?quiet "''TQQQ''"] mem main_quiet(1) fetch moved silent
  have second: "st_peak_date (stored_after ?quiet ''TQQQ'') = Some (peak_date (sample_snapshot 95))"
    "notified_level (stored_after ?quiet ''TQQQ'') = notified_level (stored_before ?quiet ''TQQQ'')"
    by blast+
  have "st_peak_date (stored_after ?quiet ''TQQQ'') = Some ''2024-02-29''"
    using second(1) by (simp add: sample_snapshot_def)
  moreover have "notified_level (stored_after ?quiet ''TQQQ'') = Some 2"
    using second(2) before by simp
  ultimately show ?thesis
    using first i before main_quiet(2) sample_stored_after(3) by blast
qed

section \<open>Price snapshot fetcher: properties\<close>

lemma max_loop_fold: "max_loop m rows = fold max (map snd rows) m"
  by (induction rows arbitrary: m) (auto simp: max.commute)

lemma max_loop_Max: "max_loop (snd row) rows = Max (snd ` set (row # rows))"
proof -
  have "Max (set (snd row # map snd rows)) = fold max (map snd rows) (snd row)"
    by (rule Max.set_eq_fold)
  then show ?thesis by (simp add: max_loop_fold)
qed

text \<open>
  \<open>idxmax_loop\<close> returns the first row that carries the largest value: the rows before
  it are strictly smaller, the rows after it are not larger.
\<close>

lemma idxmax_loop_first:
  "\<exists>pre post. best # rows = pre @ idxmax_loop best rows # post
      \<and> (\<forall>x\<in>set pre. snd x < snd (idxmax_loop best rows))
      \<and> (\<forall>x\<in>set post. snd x \<le> snd (idxmax_loop best rows))"
proof (induction rows arbitrary: best)
  case Nil
  show ?case by (rule exI [of _ "[]"], rule exI [of _ "[]"]) simp
next
  case (Cons row rows)
  show ?case
  proof (cases "snd best < snd row")
    case True
    let ?r = "idxmax_loop row rows"
    have r: "idxmax_loop best (row # rows) = ?r" using True by simp
    from Cons.IH [of row] obtain pre post where
      d: "row # rows = pre @ ?r # post" and lt: "\<forall>x\<in>set pre. snd x < snd ?r"
      and le: "\<forall>x\<in>set post. snd x \<le> snd ?r" by blast
    have "row \<in> set (row # rows)" by simp
    then have "row \<in> set pre \<or> row = ?r \<or> row \<in> set post" unfolding d by auto
    then have "snd row \<le> snd ?r" using lt le by auto
    with True have "snd best < snd ?r" by simp
    with lt have a: "\<forall>x\<in>set (best # pre). snd x < snd ?r" by simp
    have b: "best # row # rows = (best # pre) @ ?r # post" using d by simp
    show ?thesis unfolding r
      by (rule exI [of _ "best # pre"], rule exI [of _ post]) (use a b le in blast)
  next
    case False
    let ?r = "idxmax_loop best rows"
    have r: "idxmax_loop best (row # rows) = ?r" using False by simp
    from Cons.IH [of best] obtain pre post where
      d: "best # rows = pre @ ?r # post" and lt: "\<forall>x\<in>set pre. snd x < snd ?r"
      and le: "\<forall>x\<in>set post. snd x \<le> snd ?r" by blast
    show ?thesis
    proof (cases pre)
      case Nil
      with d have e: "?r = best" "post = rows" by auto
      have a: "best # row # rows = [] @ ?r # (row # rows)" using e by simp
      have b: "\<forall>x\<in>set (row # rows). snd x \<le> snd ?r" using le False e by auto
      have c: "\<forall>x\<in>set ([] :: (string \<times> real) list). snd x < snd ?r" by simp
      show ?thesis unfolding r
        by (rule exI [of _ "[]"], rule exI [of _ "row # rows"]) (use a b c in blast)
    next
      case (Cons p pre')
      with d have p: "p = best" and rows: "rows = pre' @ ?r # post" by auto
      have "snd best < snd ?r" using lt Cons p by simp
      with False have "snd row < snd ?r" by simp
      with lt Cons p have a: "\<forall>x\<in>set (best # row # pre'). snd x < snd ?r" by simp
      have b: "best # row # rows = (best # row # pre') @ ?r # post" using rows by simp
      show ?thesis unfolding r
        by (rule exI [of _ "best # row # pre'"], rule exI [of _ post]) (use a b le in blast)
    qed
  qed
qed

lemma dropna_fst_subset: "fst ` set (dropna rows) \<subseteq> fst ` set rows"
  by (induction rows rule: dropna.induct) auto

lemma sorted_dropna:
  "sorted (map fst rows) \<Longrightarrow> sorted (map fst (dropna rows))"
proof (induction rows rule: dropna.induct)
  case 1
  show ?case by simp
next
  case (2 d rows)
  then show ?case by simp
next
  case (3 d v rows)
  from 3(2) have low: "\<forall>x\<in>set rows. d \<le> fst x" and tl: "sorted (map fst rows)"
    by simp_all
  have "d \<le> fst x" if "x \<in> set (dropna rows)" for x
  proof -
    from that have "fst x \<in> fst ` set (dropna rows)" by (rule imageI)
    with dropna_fst_subset [of rows] have "fst x \<in> fst ` set rows" by blast
    then obtain x' where "x' \<in> set rows" "fst x = fst x'" by (rule imageE)
    with low show ?thesis by simp
  qed
  moreover have "sorted (map fst (dropna rows))" by (rule "3.IH" [OF tl])
  ultimately show ?case by simp
qed

lemma sorted_zip_fst: "sorted idx \<Longrightarrow> sorted (map fst (zip idx col))"
proof -
  assume s: "sorted idx"
  have "map fst (zip idx col) = take (length col) idx"
  proof (induction idx arbitrary: col)
    case Nil
    show ?case by simp
  next
    case (Cons a idx)
    then show ?case by (cases col) simp_all
  qed
  with s show ?thesis by (simp add: sorted_wrt_take)
qed

lemma sorted_window:
  assumes "sorted idx"
  shows "sorted (map fst (iloc_last n (dropna (zip idx col))))"
proof -
  have "sorted (map fst (dropna (zip idx col)))"
    by (rule sorted_dropna [OF sorted_zip_fst [OF assms]])
  then show ?thesis by (simp add: iloc_last_def drop_map [symmetric] sorted_wrt_drop)
qed

lemma iloc_last_nonempty:
  assumes "0 < n" and "s \<noteq> []"
  shows "iloc_last n s \<noteq> []"
proof -
  have "0 < length s" using assms(2) by simp
  with assms(1) have "length s - n < length s" by arith
  then show ?thesis by (simp add: iloc_last_def)
qed

lemma fetch_snapshot_enough:
  assumes dl: "provider symbol = Some df" and ne: "\<not> df_empty df"
    and col: "map_of (df_columns df) ''Close'' = Some column"
    and close: "close = dropna (zip (df_index df) column)"
    and len: "60 \<le> length close"
    and window: "window = iloc_last LOOKBACK_TRADING_DAYS close"
  shows "window \<noteq> []"
    and "fetch_snapshot provider symbol =
      (if Max (snd ` set window) = 0 then Inl ZeroDivisionError
       else Inr \<lparr>last_date = fst (last window),
                 last_close = snd (last window),
                 peak_date = fst (idxmax_loop (hd window) (tl window)),
                 peak_value = Max (snd ` set window),
                 drawdown = snd (last window) / Max (snd ` set window) - 1\<rparr>)"
proof -
  have "close \<noteq> []" using len by auto
  then show w: "window \<noteq> []"
    unfolding window by (intro iloc_last_nonempty) (simp_all add: LOOKBACK_TRADING_DAYS_def)
  then obtain row rows where rr: "window = row # rows" by (cases window) auto
  have m: "max_loop (snd row) rows = Max (snd ` set window)"
    unfolding rr by (rule max_loop_Max)
  have "\<not> length close < 60" using len by simp
  then show "fetch_snapshot provider symbol =
      (if Max (snd ` set window) = 0 then Inl ZeroDivisionError
       else Inr \<lparr>last_date = fst (last window),
                 last_close = snd (last window),
                 peak_date = fst (idxmax_loop (hd window) (tl window)),
                 peak_value = Max (snd ` set window),
                 drawdown = snd (last window) / Max (snd ` set window) - 1\<rparr>)"
    using dl ne col close [symmetric] window [symmetric] m
    by (simp add: fetch_snapshot_def Let_def rr del: max_loop.simps idxmax_loop.simps)
qed

text \<open>
  Claim C9, as the code has it. \<open>fetch_snapshot\<close> fails when the provider returns
  nothing or an empty table, when there is no \<open>Close\<close> column, and when fewer than 60
  closes remain after the missing ones are dropped (59 fail). With 60 or more it
  passes the check; it then returns a snapshot when the largest close of the window
  is not zero, and fails on the division when it is zero.
\<close>

theorem fetch_snapshot_checks:
  "(provider symbol = None \<longrightarrow> fetch_snapshot provider symbol = Inl (FetchFailed symbol))
   \<and> (\<forall>df. provider symbol = Some df \<and> df_empty df
          \<longrightarrow> fetch_snapshot provider symbol = Inl (FetchFailed symbol))
   \<and> (\<forall>df. provider symbol = Some df \<and> \<not> df_empty df
            \<and> map_of (df_columns df) ''Close'' = None
          \<longrightarrow> fetch_snapshot provider symbol = Inl (CloseNotFound symbol))
   \<and> (\<forall>df column close.
          provider symbol = Some df \<and> \<not> df_empty df
          \<and> map_of (df_columns df) ''Close'' = Some column
          \<and> close = dropna (zip (df_index df) column)
        \<longrightarrow> (length close < 60
               \<longrightarrow> fetch_snapshot provider symbol = Inl (NotEnoughData symbol (length close)))
            \<and> (60 \<le> length close
                 \<and> Max (snd ` set (iloc_last LOOKBACK_TRADING_DAYS close)) \<noteq> 0
               \<longrightarrow> (\<exists>snap. fetch_snapshot provider symbol = Inr snap))
            \<and> (60 \<le> length close
                 \<and> Max (snd ` set (iloc_last LOOKBACK_TRADING_DAYS close)) = 0
               \<longrightarrow> fetch_snapshot provider symbol = Inl ZeroDivisionError))"
proof (intro conjI allI impI)
  assume "provider symbol = None"
  then show "fetch_snapshot provider symbol = Inl (FetchFailed symbol)"
    by (simp add: fetch_snapshot_def)
next
  fix df assume "provider symbol = Some df \<and> df_empty df"
  then show "fetch_snapshot provider symbol = Inl (FetchFailed symbol)"
    by (simp add: fetch_snapshot_def)
next
  fix df assume "provider symbol = Some df \<and> \<not> df_empty df \<and> map_of (df_columns df) ''Close'' = None"
  then show "fetch_snapshot provider symbol = Inl (CloseNotFound symbol)"
    by (simp add: fetch_snapshot_def)
next
  fix df column close
  assume a: "provider symbol = Some df \<and> \<not> df_empty df
          \<and> map_of (df_columns df) ''Close'' = Some column
          \<and> close = dropna (zip (df_index df) column)"
    and "length close < 60"
  then show "fetch_snapshot provider symbol = Inl (NotEnoughData symbol (length close))"
    by (simp add: fetch_snapshot_def)
next
  fix df column close
  assume a: "provider symbol = Some df \<and> \<not> df_empty df
          \<and> map_of (df_columns df) ''Close'' = Some column
          \<and> close = dropna (zip (df_index df) column)"
    and b: "60 \<le> length close \<and> Max (snd ` set (iloc_last LOOKBACK_TRADING_DAYS close)) \<noteq> 0"
  from a b have "fetch_snapshot provider symbol =
      (if Max (snd ` set (iloc_last LOOKBACK_TRADING_DAYS close)) = 0 then Inl ZeroDivisionError
       else Inr \<lparr>last_date = fst (last (iloc_last LOOKBACK_TRADING_DAYS close)),
                 last_close = snd (last (iloc_last LOOKBACK_TRADING_DAYS close)),
                 peak_date = fst (idxmax_loop (hd (iloc_last LOOKBACK_TRADING_DAYS close))
                                              (tl (iloc_last LOOKBACK_TRADING_DAYS close))),
                 peak_value = Max (snd ` set (iloc_last LOOKBACK_TRADING_DAYS close)),
                 drawdown = snd (last (iloc_last LOOKBACK_TRADING_DAYS close))
                            / Max (snd ` set (iloc_last LOOKBACK_TRADING_DAYS close)) - 1\<rparr>)"
    by (intro fetch_snapshot_enough(2) [where df = df and column = column and close = close]) simp_all
  with b show "\<exists>snap. fetch_snapshot provider symbol = Inr snap" by simp
next
  fix df column close
  assume a: "provider symbol = Some df \<and> \<not> df_empty df
          \<and> map_of (df_columns df) ''Close'' = Some column
          \<and> close = dropna (zip (df_index df) column)"
    and b: "60 \<le> length close \<and> Max (snd ` set (iloc_last LOOKBACK_TRADING_DAYS close)) = 0"
  from a b have "fetch_snapshot provider symbol =
      (if Max (snd ` set (iloc_last LOOKBACK_TRADING_DAYS close)) = 0 then Inl ZeroDivisionError
       else Inr \<lparr>last_date = fst (last (iloc_last LOOKBACK_TRADING_DAYS close)),
                 last_close = snd (last (iloc_last LOOKBACK_TRADING_DAYS close)),
                 peak_date = fst (idxmax_loop (hd (iloc_last LOOKBACK_TRADING_DAYS close))
                                              (tl (iloc_last LOOKBACK_TRADING_DAYS close))),
                 peak_value = Max (snd ` set (iloc_last LOOKBACK_TRADING_DAYS close)),
                 drawdown = snd (last (iloc_last LOOKBACK_TRADING_DAYS close))
                            / Max (snd ` set (iloc_last LOOKBACK_TRADING_DAYS close)) - 1\<rparr>)"
    by (intro fetch_snapshot_enough(2) [where df = df and column = column and close = close]) simp_all
  with b show "fetch_snapshot provider symbol = Inl ZeroDivisionError" by simp
qed

lemmas frame_defs =
  sample_frame_def sample_days_def df_empty_def iloc_last_def LOOKBACK_TRADING_DAYS_def
  replicate_numeral

lemma sample_short:
  "\<not> df_empty (sample_frame (take 59 sample_days) (replicate 59 90))"
  "map_of (df_columns (sample_frame (take 59 sample_days) (replicate 59 90))) ''Close''
     = Some (map Some (replicate 59 90))"
  "length (dropna (zip (df_index (sample_frame (take 59 sample_days) (replicate 59 90)))
     (map Some (replicate 59 90)))) = 59"
  by (simp_all add: frame_defs)

lemma sample_flat:
  "\<not> df_empty (sample_frame (take 60 sample_days) (replicate 60 c))"
  "map_of (df_columns (sample_frame (take 60 sample_days) (replicate 60 c))) ''Close''
     = Some (map Some (replicate 60 c))"
  "length (dropna (zip (df_index (sample_frame (take 60 sample_days) (replicate 60 c)))
     (map Some (replicate 60 c)))) = 60"
  "Max (snd ` set (iloc_last LOOKBACK_TRADING_DAYS
     (dropna (zip (df_index (sample_frame (take 60 sample_days) (replicate 60 c)))
        (map Some (replicate 60 c)))))) = c"
  by (simp_all add: frame_defs)


theorem fetch_snapshot_checks_witness:
  "fetch_snapshot (\<lambda>symbol. None) ''TQQQ'' = Inl (FetchFailed ''TQQQ'')
   \<and> fetch_snapshot (\<lambda>symbol. Some (sample_frame [] [])) ''TQQQ'' = Inl (FetchFailed ''TQQQ'')
   \<and> fetch_snapshot (\<lambda>symbol. Some \<lparr>df_index = sample_days, df_columns = [(''Open'', [])]\<rparr>) ''TQQQ''
        = Inl (CloseNotFound ''TQQQ'')
   \<and> fetch_snapshot (\<lambda>symbol. Some (sample_frame (take 59 sample_days) (replicate 59 90))) ''TQQQ''
        = Inl (NotEnoughData ''TQQQ'' 59)
   \<and> (\<exists>snap. fetch_snapshot (\<lambda>symbol. Some (sample_frame (take 60 sample_days) (replicate 60 90)))
                 ''TQQQ'' = Inr snap)
   \<and> fetch_snapshot (\<lambda>symbol. Some (sample_frame (take 60 sample_days) (replicate 60 0))) ''TQQQ''
        = Inl ZeroDivisionError"
proof -
  let ?short = "sample_frame (take 59 sample_days) (replicate 59 90)"
  let ?enough = "sample_frame (take 60 sample_days) (replicate 60 (90::real))"
  let ?zero = "sample_frame (take 60 sample_days) (replicate 60 (0::real))"
  let ?open = "\<lparr>df_index = sample_days, df_columns = [(''Open'', [])]\<rparr>"
  have 1: "fetch_snapshot (\<lambda>symbol. None) ''TQQQ'' = Inl (FetchFailed ''TQQQ'')"
    by (rule fetch_snapshot_checks [THEN conjunct1, THEN mp]) simp
  have 2: "fetch_snapshot (\<lambda>symbol. Some (sample_frame [] [])) ''TQQQ'' = Inl (FetchFailed ''TQQQ'')"
    by (rule fetch_snapshot_checks [THEN conjunct2, THEN conjunct1, THEN spec, THEN mp,
          of _ _ "sample_frame [] []"]) (simp add: frame_defs)
  have 3: "fetch_snapshot (\<lambda>symbol. Some ?open) ''TQQQ'' = Inl (CloseNotFound ''TQQQ'')"
    by (rule fetch_snapshot_checks [THEN conjunct2, THEN conjunct2, THEN conjunct1, THEN spec,
          THEN mp, of _ _ ?open]) (simp add: frame_defs)
  note rest = fetch_snapshot_checks [THEN conjunct2, THEN conjunct2, THEN conjunct2,
      THEN spec, THEN spec, THEN spec, THEN mp]
  have "length (dropna (zip (df_index ?short) (map Some (replicate 59 90)))) < 60
      \<longrightarrow> fetch_snapshot (\<lambda>symbol. Some ?short) ''TQQQ''
          = Inl (NotEnoughData ''TQQQ'' (length (dropna (zip (df_index ?short) (map Some (replicate 59 90))))))"
    by (rule rest [of "\<lambda>symbol. Some ?short" "''TQQQ''" ?short "map Some (replicate 59 90)"
          "dropna (zip (df_index ?short) (map Some (replicate 59 90)))", THEN conjunct1])
       (simp add: sample_short)
  then have 4: "fetch_snapshot (\<lambda>symbol. Some ?short) ''TQQQ'' = Inl (NotEnoughData ''TQQQ'' 59)"
    unfolding sample_short(3) by simp
  let ?c90 = "dropna (zip (df_index ?enough) (map Some (replicate 60 90)))"
  have "60 \<le> length ?c90 \<and> Max (snd ` set (iloc_last LOOKBACK_TRADING_DAYS ?c90)) \<noteq> 0
      \<longrightarrow> (\<exists>snap. fetch_snapshot (\<lambda>symbol. Some ?enough) ''TQQQ'' = Inr snap)"
    by (rule rest [of "\<lambda>symbol. Some ?enough" "''TQQQ''" ?enough "map Some (replicate 60 90)" ?c90,
          THEN conjunct2, THEN conjunct1])
       (simp add: sample_flat)
  then have 5: "\<exists>snap. fetch_snapshot (\<lambda>symbol. Some ?enough) ''TQQQ'' = Inr snap"
    unfolding sample_flat(3,4) by simp
  let ?c0 = "dropna (zip (df_index ?zero) (map Some (replicate 60 0)))"
  have "60 \<le> length ?c0 \<and> Max (snd ` set (iloc_last LOOKBACK_TRADING_DAYS ?c0)) = 0
      \<longrightarrow> fetch_snapshot (\<lambda>symbol. Some ?zero) ''TQQQ'' = Inl ZeroDivisionError"
    by (rule rest [of "\<lambda>symbol. Some ?zero" "''TQQQ''" ?zero "map Some (replicate 60 0)" ?c0,
          THEN conjunct2, THEN conjunct2])
       (simp add: sample_flat)
  then have 6: "fetch_snapshot (\<lambda>symbol. Some ?zero) ''TQQQ'' = Inl ZeroDivisionError"
    unfolding sample_flat(3,4) by simp
  from 1 2 3 4 5 6 show ?thesis by blast
qed

text \<open>
  The claim as stated fails: 60 closes that are all zero pass the check of the number
  of observations, and the division by the peak raises.
\<close>

theorem fetch_snapshot_zero_peak:
  "length (dropna (zip (df_index (sample_frame (take 60 sample_days) (replicate 60 0)))
                       (map Some (replicate 60 0)))) = 60
   \<and> map_of (df_columns (sample_frame (take 60 sample_days) (replicate 60 0))) ''Close''
        = Some (map Some (replicate 60 0))
   \<and> fetch_snapshot (\<lambda>symbol. Some (sample_frame (take 60 sample_days) (replicate 60 0))) ''TQQQ''
        = Inl ZeroDivisionError"
  by (simp add: fetch_snapshot_def Let_def frame_defs)

lemma fetch_snapshot_Inr:
  assumes "fetch_snapshot provider symbol = Inr snap"
    and "provider symbol = Some df"
    and "map_of (df_columns df) ''Close'' = Some column"
  shows "\<not> df_empty df \<and> 60 \<le> length (dropna (zip (df_index df) column))"
  using assms by (auto simp: fetch_snapshot_def Let_def split: if_splits)

text \<open>
  Claim C10. When \<open>fetch_snapshot\<close> returns a snapshot, its peak value is the largest
  close of the trailing window and its peak date is the label of the first row of the
  window with that close; on a date-ordered index that is the earliest date on which
  the maximum is reached, also when several days share it.
\<close>

theorem peak_date_earliest:
  assumes dl: "provider symbol = Some df"
    and col: "map_of (df_columns df) ''Close'' = Some column"
    and window: "window = iloc_last LOOKBACK_TRADING_DAYS (dropna (zip (df_index df) column))"
    and fetch: "fetch_snapshot provider symbol = Inr snap"
  shows "peak_value snap = Max (snd ` set window)
    \<and> (\<exists>pre post. window = pre @ (peak_date snap, peak_value snap) # post
          \<and> (\<forall>x\<in>set pre. snd x < peak_value snap))
    \<and> (sorted (df_index df) \<longrightarrow>
          (\<forall>d. (d, peak_value snap) \<in> set window \<longrightarrow> peak_date snap \<le> d))"
proof -
  from fetch_snapshot_Inr [OF fetch dl col]
  have ne: "\<not> df_empty df" and len: "60 \<le> length (dropna (zip (df_index df) column))"
    by simp_all
  define close where "close = dropna (zip (df_index df) column)"
  note enough = fetch_snapshot_enough [where provider = provider and symbol = symbol,
      OF dl ne col close_def len [folded close_def] window [folded close_def]]
  from enough(1) obtain row rows where rr: "window = row # rows" by (cases window) auto
  let ?r = "idxmax_loop row rows"
  from enough(2) fetch have snap:
    "peak_value snap = Max (snd ` set window)" "peak_date snap = fst ?r"
    by (auto simp: rr split: if_splits)
  from idxmax_loop_first [of row rows] obtain pre post where
    d: "window = pre @ ?r # post" and lt: "\<forall>x\<in>set pre. snd x < snd ?r"
    and le: "\<forall>x\<in>set post. snd x \<le> snd ?r" unfolding rr by blast
  have "Max (snd ` set window) = snd ?r"
  proof (rule Max_eqI)
    show "finite (snd ` set window)" by simp
    show "snd ?r \<in> snd ` set window" unfolding d by simp
    fix y assume "y \<in> snd ` set window"
    then obtain x where x: "x \<in> set window" "y = snd x" by blast
    from x(1) have "x \<in> set pre \<or> x = ?r \<or> x \<in> set post"
      unfolding d by auto
    with lt le x(2) show "y \<le> snd ?r" by auto
  qed
  with snap have r: "?r = (peak_date snap, peak_value snap)" by (simp add: prod_eq_iff)
  have first: "\<exists>pre post. window = pre @ (peak_date snap, peak_value snap) # post
          \<and> (\<forall>x\<in>set pre. snd x < peak_value snap)"
    using d lt unfolding r by auto
  have earliest: "peak_date snap \<le> d'"
    if s: "sorted (df_index df)" and mem: "(d', peak_value snap) \<in> set window" for d'
  proof -
    have "sorted (map fst window)" unfolding window by (rule sorted_window [OF s])
    then have after: "\<forall>x\<in>set post. peak_date snap \<le> fst x"
      unfolding d r by (simp add: sorted_append)
    from mem have "(d', peak_value snap) \<in> set pre \<or> (d', peak_value snap) = ?r
        \<or> (d', peak_value snap) \<in> set post"
      unfolding d by auto
    moreover have "(d', peak_value snap) \<notin> set pre" using lt unfolding r by auto
    ultimately show ?thesis using after r by auto
  qed
  from snap(1) first earliest show ?thesis by blast
qed


theorem peak_date_earliest_witness:
  "sorted (df_index (sample_frame (drop 1 sample_days) (replicate 57 90 @ [100, 100, 60])))
   \<and> (''2024-02-29'', 100) \<in> set (iloc_last LOOKBACK_TRADING_DAYS
         (dropna (zip (df_index (sample_frame (drop 1 sample_days) (replicate 57 90 @ [100, 100, 60])))
                      (map Some (replicate 57 90 @ [100, 100, 60])))))
   \<and> (\<exists>snap. fetch_snapshot
          (\<lambda>symbol. Some (sample_frame (drop 1 sample_days) (replicate 57 90 @ [100, 100, 60])))
          ''TQQQ'' = Inr snap
        \<and> peak_value snap = 100 \<and> peak_date snap = ''2024-02-28''
        \<and> peak_date snap \<le> ''2024-02-29'')"
proof -
  let ?closes = "replicate 57 90 @ [100, 100, 60 :: real]"
  let ?frame = "sample_frame (drop 1 sample_days) ?closes"
  let ?window = "iloc_last LOOKBACK_TRADING_DAYS (dropna (zip (df_index ?frame) (map Some ?closes)))"
  let ?snap = "\<lparr>last_date = ''2024-03-01'', last_close = 60, peak_date = ''2024-02-28'',
                 peak_value = 100, drawdown = - 0.40\<rparr>"
  have srt: "sorted (df_index ?frame)"
    unfolding sample_frame_def sample_days_def by (simp only: sorted2 DataFrame.simps drop_Suc_Cons
        One_nat_def drop_0) simp
  have col: "map_of (df_columns ?frame) ''Close'' = Some (map Some ?closes)"
    by (simp add: sample_frame_def)
  have fetch: "fetch_snapshot (\<lambda>symbol. Some ?frame) ''TQQQ'' = Inr ?snap"
    by (simp add: fetch_snapshot_def Let_def frame_defs)
  have mem: "(''2024-02-29'', peak_value ?snap) \<in> set ?window"
    by (simp add: frame_defs)
  from peak_date_earliest [of "\<lambda>symbol. Some ?frame" "''TQQQ''" ?frame "map Some ?closes"
      ?window ?snap, OF refl col refl fetch]
  have "sorted (df_index ?frame) \<longrightarrow>
          (\<forall>d. (d, peak_value ?snap) \<in> set ?window \<longrightarrow> peak_date ?snap \<le> d)"
    by (rule conjunct2 [THEN conjunct2])
  with srt mem have "peak_date ?snap \<le> ''2024-02-29''" by blast
  moreover have "peak_value ?snap = 100" "peak_date ?snap = ''2024-02-28''" by simp_all
  moreover have "(''2024-02-29'', 100) \<in> set ?window" using mem by simp
  ultimately show ?thesis using srt fetch by blast
qed

section \<open>Sequences of runs\<close>

subsection \<open>Sample runs\<close>


lemma sample_world_high_fields [simp]:
  "gh_ok (sample_world_high file) issue"
  "utc_now (sample_world_high file) = ''2024-03-01T21:30:00+00:00''"
  "state_file (sample_world_high file) = file"
  by (simp_all add: sample_world_high_def sample_world_def)




subsection \<open>Where the issues of a run come from\<close>

lemma process_symbol_local_calls:
  assumes same: "symbols state2 symbol = symbols state symbol"
  shows "fst (process_symbol w now state2 (symbol, levels))
           = fst (process_symbol w now state (symbol, levels))"
proof -
  note g = get_sym_state_cong [OF same]
  show ?thesis
    by (cases rule: process_symbol_cases [of w symbol now state levels];
        cases rule: process_symbol_cases [of w symbol now state2 levels])
       (auto simp: g)
qed

lemma issue_in_process_symbol:
  assumes "IssueCreate issue \<in> set (fst (process_symbol w now state (symbol, levels)))"
  shows "i_symbol issue = symbol
    \<and> fetch_snapshot (download w) symbol = Inr (i_snap issue)
    \<and> decide_level (drawdown (i_snap issue)) levels = Some (i_level issue)
    \<and> effective_level (get_sym_state state symbol) (i_snap issue) < i_level issue"
  using assms by (cases rule: process_symbol_cases [of w symbol now state levels]) auto

lemma main_loop_issue:
  assumes "main_loop w now items state = (cs, r)" and "distinct (map fst items)"
    and "IssueCreate issue \<in> set cs"
  shows "\<exists>levels. (i_symbol issue, levels) \<in> set items
    \<and> IssueCreate issue \<in> set (fst (process_symbol w now state (i_symbol issue, levels)))"
  using assms
proof (induction items arbitrary: state cs r)
  case Nil
  then show ?case by simp
next
  case (Cons item items)
  obtain symbol0 levels0 where item: "item = (symbol0, levels0)" by (cases item)
  obtain cs1 r1 where p: "process_symbol w now state (symbol0, levels0) = (cs1, r1)"
    by (cases "process_symbol w now state (symbol0, levels0)")
  have c1: "\<forall>c\<in>set cs1. call_symbol c = symbol0" using process_symbol_calls [OF p] by simp
  have here: ?case if "IssueCreate issue \<in> set cs1"
  proof -
    from that c1 have "i_symbol issue = symbol0" by auto
    with that p item show ?thesis by auto
  qed
  show ?case
  proof (cases r1)
    case (Inl e)
    with Cons.prems(1) p item have "cs = cs1" by simp
    with Cons.prems(3) here show ?thesis by simp
  next
    case (Inr st1)
    obtain cs2 r2 where m: "main_loop w now items st1 = (cs2, r2)"
      by (cases "main_loop w now items st1")
    with Cons.prems(1) p item Inr have cs: "cs = cs1 @ cs2" by simp
    show ?thesis
    proof (cases "IssueCreate issue \<in> set cs1")
      case True
      then show ?thesis by (rule here)
    next
      case False
      with Cons.prems(3) cs have in2: "IssueCreate issue \<in> set cs2" by simp
      have dist: "distinct (map fst items)" and fresh: "symbol0 \<notin> fst ` set items"
        using Cons.prems(2) item by auto
      from Cons.IH [OF m dist in2] obtain levels where
        mem: "(i_symbol issue, levels) \<in> set items"
        and q: "IssueCreate issue \<in> set (fst (process_symbol w now st1 (i_symbol issue, levels)))"
        by blast
      have ne: "i_symbol issue \<noteq> symbol0" using mem fresh by force
      have "symbols st1 (i_symbol issue) = symbols state (i_symbol issue)"
        by (rule process_symbol_frame [OF p [unfolded Inr] ne])
      from process_symbol_local_calls [OF this] q
      have "IssueCreate issue \<in> set (fst (process_symbol w now state (i_symbol issue, levels)))"
        by simp
      with mem show ?thesis by auto
    qed
  qed
qed

lemma calls_main:
  "calls (main w) = fst (main_loop w (utc_now w) RULES (load_state (state_file w)))"
  by (simp add: main_def split: prod.splits sum.splits)

text \<open>Every issue of a run was owed: its level is the hit level, above the effective level.\<close>

lemma main_issue:
  assumes "issue \<in> set (issues_of (calls (main w)))"
  shows "\<exists>levels. (i_symbol issue, levels) \<in> set RULES
    \<and> fetch_snapshot (download w) (i_symbol issue) = Inr (i_snap issue)
    \<and> decide_level (drawdown (i_snap issue)) levels = Some (i_level issue)
    \<and> effective_level (stored_before w (i_symbol issue)) (i_snap issue) < i_level issue"
proof -
  obtain cs r where m: "main_loop w (utc_now w) RULES (load_state (state_file w)) = (cs, r)"
    by (cases "main_loop w (utc_now w) RULES (load_state (state_file w))")
  then have "calls (main w) = cs" by (simp add: calls_main)
  with assms have "IssueCreate issue \<in> set cs" by (simp add: in_issues_of)
  from main_loop_issue [OF m distinct_RULES this] obtain levels where
    mem: "(i_symbol issue, levels) \<in> set RULES"
    and q: "IssueCreate issue \<in> set (fst (process_symbol w (utc_now w)
               (load_state (state_file w)) (i_symbol issue, levels)))" by blast
  from issue_in_process_symbol [OF q] mem show ?thesis
    unfolding stored_before_def by blast
qed

subsection \<open>Epochs\<close>

lemma stored_level_notified [simp]:
  "stored_level (s\<lparr>notified_level := Some h\<rparr>) = h"
  by (simp add: stored_level_def)





lemma stored_threaded [simp]:
  "stored_before (w\<lparr>state_file := file\<rparr>) symbol = get_sym_state (load_state file) symbol"
  "get_sym_state (load_state (file_after (main w))) symbol = stored_after w symbol"
  by (simp_all add: stored_before_def stored_after_def)


lemma issues_of_filter:
  "issues_of (filter (\<lambda>c. call_symbol c = s) cs) = filter (\<lambda>i. i_symbol i = s) (issues_of cs)"
  by (induction cs rule: issues_of.induct) simp_all

text \<open>
  Whether the loop ends well or not, the calls it made for a symbol it reached are
  those of the loop body on the initial state.
\<close>

lemma main_loop_reached:
  assumes "main_loop w now items state = (cs, r)" and "distinct (map fst items)"
    and "c \<in> set cs"
  shows "\<exists>levels. (call_symbol c, levels) \<in> set items
    \<and> filter (\<lambda>c'. call_symbol c' = call_symbol c) cs
          = fst (process_symbol w now state (call_symbol c, levels))"
  using assms
proof (induction items arbitrary: state cs r)
  case Nil
  then show ?case by simp
next
  case (Cons item items)
  obtain symbol0 levels0 where item: "item = (symbol0, levels0)" by (cases item)
  obtain cs1 r1 where p: "process_symbol w now state (symbol0, levels0) = (cs1, r1)"
    by (cases "process_symbol w now state (symbol0, levels0)")
  have c1: "\<forall>c\<in>set cs1. call_symbol c = symbol0" using process_symbol_calls [OF p] by simp
  then have f1: "filter (\<lambda>c'. call_symbol c' = symbol0) cs1 = cs1" by simp
  have dist: "distinct (map fst items)" and fresh: "symbol0 \<notin> fst ` set items"
    using Cons.prems(2) item by auto
  obtain cs2 where cs: "cs = cs1 @ cs2"
    and c2: "\<forall>c\<in>set cs2. call_symbol c \<in> fst ` set items"
    and rest: "cs2 \<noteq> [] \<Longrightarrow> \<exists>st1 r2. r1 = Inr st1 \<and> main_loop w now items st1 = (cs2, r2)"
  proof (cases r1)
    case (Inl e)
    with Cons.prems(1) p item have "cs = cs1 @ []" by simp
    then show ?thesis using that by force
  next
    case (Inr st1)
    obtain cs2 r2 where m: "main_loop w now items st1 = (cs2, r2)"
      by (cases "main_loop w now items st1")
    with Cons.prems(1) p item Inr have "cs = cs1 @ cs2" by simp
    moreover have "\<forall>c\<in>set cs2. call_symbol c \<in> fst ` set items"
      by (rule main_loop_call_symbols [OF m])
    ultimately show ?thesis using that m Inr by blast
  qed
  show ?case
  proof (cases "call_symbol c = symbol0")
    case True
    have "filter (\<lambda>c'. call_symbol c' = symbol0) cs2 = []"
      using c2 fresh by (auto simp: filter_empty_conv)
    with f1 have "filter (\<lambda>c'. call_symbol c' = call_symbol c) cs = cs1"
      unfolding cs True by simp
    with p item True show ?thesis by auto
  next
    case False
    with Cons.prems(3) c1 cs have in2: "c \<in> set cs2" by auto
    then have "cs2 \<noteq> []" by auto
    from rest [OF this] obtain st1 r2 where
      r1: "r1 = Inr st1" and m: "main_loop w now items st1 = (cs2, r2)" by blast
    from Cons.IH [OF m dist in2] obtain levels where
      mem: "(call_symbol c, levels) \<in> set items"
      and q: "filter (\<lambda>c'. call_symbol c' = call_symbol c) cs2
                = fst (process_symbol w now st1 (call_symbol c, levels))" by blast
    have "symbols st1 (call_symbol c) = symbols state (call_symbol c)"
      by (rule process_symbol_frame [OF p [unfolded r1] False])
    from process_symbol_local_calls [OF this]
    have "fst (process_symbol w now st1 (call_symbol c, levels))
            = fst (process_symbol w now state (call_symbol c, levels))" .
    moreover have "filter (\<lambda>c'. call_symbol c' = call_symbol c) cs1 = []"
      using c1 False by (auto simp: filter_empty_conv)
    ultimately have "filter (\<lambda>c'. call_symbol c' = call_symbol c) cs
            = fst (process_symbol w now state (call_symbol c, levels))"
      using q unfolding cs by simp
    with mem item show ?thesis by auto
  qed
qed

lemma main_reached:
  assumes "c \<in> set (calls (main w))"
  shows "\<exists>levels. (call_symbol c, levels) \<in> set RULES
    \<and> filter (\<lambda>c'. call_symbol c' = call_symbol c) (calls (main w))
          = fst (process_symbol w (utc_now w) (load_state (state_file w)) (call_symbol c, levels))"
proof -
  obtain cs r where m: "main_loop w (utc_now w) RULES (load_state (state_file w)) = (cs, r)"
    by (cases "main_loop w (utc_now w) RULES (load_state (state_file w))")
  then have cs: "calls (main w) = cs" by (simp add: calls_main)
  from main_loop_reached [OF m distinct_RULES assms [unfolded cs]] show ?thesis
    unfolding cs .
qed




lemma sample_world_threaded [simp]:
  "(sample_world c file)\<lparr>state_file := file'\<rparr> = sample_world c file'"
  "(sample_world_high file)\<lparr>state_file := file'\<rparr> = sample_world_high file'"
  "(sample_world_outage down c file)\<lparr>state_file := file'\<rparr> = sample_world_outage down c file'"
  by (auto simp: sample_world_def sample_world_high_def sample_world_outage_def fun_eq_iff)





section \<open>What a run files and stores for one symbol\<close>

lemma RULES_levels_unique:
  "(symbol, levels) \<in> set RULES \<Longrightarrow> (symbol, levels') \<in> set RULES \<Longrightarrow> levels' = levels"
  using distinct_RULES by (meson eq_key_imp_eq_value)

text \<open>The issues a run files for a symbol it reaches are those of the loop body.\<close>

lemma main_symbol_issues:
  assumes mem: "(symbol, levels) \<in> set RULES"
    and reached: "Download symbol \<in> set (calls (main w))"
  shows "filter (\<lambda>i. i_symbol i = symbol) (issues_of (calls (main w)))
    = issues_of (fst (process_symbol w (utc_now w) (load_state (state_file w)) (symbol, levels)))"
proof -
  from main_reached [OF reached] obtain levels' where
    mem': "(symbol, levels') \<in> set RULES"
    and f: "filter (\<lambda>c'. call_symbol c' = symbol) (calls (main w))
          = fst (process_symbol w (utc_now w) (load_state (state_file w)) (symbol, levels'))"
    by auto
  have "levels' = levels" by (rule RULES_levels_unique [OF mem mem'])
  with f show ?thesis by (simp add: issues_of_filter [symmetric])
qed

lemma main_no_issue:
  assumes mem: "(symbol, levels) \<in> set RULES"
    and fetch: "fetch_snapshot (download w) symbol = Inr snap"
    and quiet: "decide_level (drawdown snap) levels = None
      \<or> (\<exists>h. decide_level (drawdown snap) levels = Some h
             \<and> h \<le> effective_level (stored_before w symbol) snap)"
  shows "filter (\<lambda>i. i_symbol i = symbol) (issues_of (calls (main w))) = []"
proof (rule ccontr)
  assume "filter (\<lambda>i. i_symbol i = symbol) (issues_of (calls (main w))) \<noteq> []"
  then obtain issue where "issue \<in> set (filter (\<lambda>i. i_symbol i = symbol) (issues_of (calls (main w))))"
    by (cases "filter (\<lambda>i. i_symbol i = symbol) (issues_of (calls (main w)))") auto
  then have i: "issue \<in> set (issues_of (calls (main w)))" "i_symbol issue = symbol" by simp_all
  from main_issue [OF i(1)] obtain levels' where
    mem': "(symbol, levels') \<in> set RULES"
    and f: "fetch_snapshot (download w) symbol = Inr (i_snap issue)"
    and d: "decide_level (drawdown (i_snap issue)) levels' = Some (i_level issue)"
    and e: "effective_level (stored_before w symbol) (i_snap issue) < i_level issue"
    unfolding i(2) by blast
  have "levels' = levels" by (rule RULES_levels_unique [OF mem mem'])
  moreover have "i_snap issue = snap" using f fetch by simp
  ultimately show False using d e quiet by auto
qed

lemma stored_after_notified_kept:
  assumes "filter (\<lambda>i. i_symbol i = symbol) (issues_of (calls (main w))) = []"
  shows "notified_level (stored_after w symbol) = notified_level (stored_before w symbol)"
proof (cases "raised (main w)")
  case (Some e)
  then show ?thesis by (simp add: stored_after_raised)
next
  case None
  show ?thesis
  proof (cases "symbol \<in> fst ` set RULES")
    case False
    then show ?thesis by (simp add: stored_after_other [OF None])
  next
    case True
    then obtain levels where mem: "(symbol, levels) \<in> set RULES" by auto
    from stored_after_completed [OF None mem] obtain cs1 st1 where
      p: "process_symbol w (utc_now w) (load_state (state_file w)) (symbol, levels) = (cs1, Inr st1)"
      and s: "stored_after w symbol = get_sym_state st1 symbol"
      and c: "filter (\<lambda>c. call_symbol c = symbol) (calls (main w)) = cs1" by blast
    show ?thesis
    proof (rule ccontr)
      assume "notified_level (stored_after w symbol) \<noteq> notified_level (stored_before w symbol)"
      then have "notified_level (get_sym_state st1 symbol)
              \<noteq> notified_level (get_sym_state (load_state (state_file w)) symbol)"
        using s by (simp add: stored_before_def)
      from process_symbol_notified [OF p this] obtain issue where
        i: "IssueCreate issue \<in> set cs1" "i_symbol issue = symbol" by blast
      have "IssueCreate issue \<in> set (calls (main w))" using i(1) c by auto
      then have "issue \<in> set (issues_of (calls (main w)))" by (simp add: in_issues_of)
      with i(2) have "issue \<in> set (filter (\<lambda>i. i_symbol i = symbol) (issues_of (calls (main w))))"
        by simp
      with assms show False by simp
    qed
  qed
qed

lemma process_symbol_mirror:
  assumes "process_symbol w now state (symbol, levels) = (cs, Inr st1)"
  shows "\<exists>snap. fetch_snapshot (download w) symbol = Inr snap
    \<and> st_last_date (get_sym_state st1 symbol) = Some (last_date snap)
    \<and> st_last_close (get_sym_state st1 symbol) = Some (last_close snap)
    \<and> st_peak_date (get_sym_state st1 symbol) = Some (peak_date snap)
    \<and> st_peak_value (get_sym_state st1 symbol) = Some (peak_value snap)
    \<and> st_drawdown (get_sym_state st1 symbol) = Some (drawdown snap)
    \<and> st_updated_at (get_sym_state st1 symbol) = Some now"
  using assms by (cases rule: process_symbol_cases [of w symbol now state levels]) auto

text \<open>
  Claim C3, as the code has it. The state file has peak date \<open>P\<close> and notified level
  \<open>n > 0\<close> for a symbol, the run reaches the symbol, its snapshot has another peak
  date and the hit level is \<open>h\<close> (at least 1, possibly at most \<open>n\<close>). Then the run
  files exactly one issue for the symbol, at level \<open>h\<close>. The notified level in the
  state file becomes \<open>h\<close> when the run completes; when the run raises, the file is
  left as it was and the level stays \<open>n\<close>.
\<close>

theorem peak_change_alert_persisted:
  assumes mem: "(symbol, levels) \<in> set RULES"
    and reached: "Download symbol \<in> set (calls (main w))"
    and fetch: "fetch_snapshot (download w) symbol = Inr snap"
    and stored: "st_peak_date (stored_before w symbol) = Some P"
      "notified_level (stored_before w symbol) = Some n" "0 < n"
    and moved: "peak_date snap \<noteq> P"
    and hit: "decide_level (drawdown snap) levels = Some h"
  shows "1 \<le> h
    \<and> filter (\<lambda>i. i_symbol i = symbol) (issues_of (calls (main w)))
        = [\<lparr>i_symbol = symbol, i_level = h, i_snap = snap, i_threshold = levels ! nat (h - 1)\<rparr>]
    \<and> (raised (main w) = None \<longrightarrow> notified_level (stored_after w symbol) = Some h)
    \<and> (raised (main w) \<noteq> None \<longrightarrow>
          file_after (main w) = state_file w \<and> notified_level (stored_after w symbol) = Some n)"
proof -
  let ?state = "load_state (state_file w)"
  let ?issue = "\<lparr>i_symbol = symbol, i_level = h, i_snap = snap, i_threshold = levels ! nat (h - 1)\<rparr>"
  have h1: "1 \<le> h" using decide_level_range [OF hit] by simp
  have "effective_level (get_sym_state ?state symbol) snap = 0"
    using stored(1) moved unfolding stored_before_def by (simp add: effective_level_reset)
  with h1 have deeper: "effective_level (get_sym_state ?state symbol) snap < h" by simp
  note body = process_symbol_deeper [OF fetch hit deeper refl, of "utc_now w"]
  have issues: "filter (\<lambda>i. i_symbol i = symbol) (issues_of (calls (main w))) = [?issue]"
    unfolding main_symbol_issues [OF mem reached] body by simp
  have completed: "notified_level (stored_after w symbol) = Some h" if "raised (main w) = None"
  proof -
    from stored_after_completed [OF that mem] obtain cs1 st1 where
      p: "process_symbol w (utc_now w) ?state (symbol, levels) = (cs1, Inr st1)"
      and s: "stored_after w symbol = get_sym_state st1 symbol" by blast
    from p have "st1 = ?state\<lparr>symbols := (symbols ?state)(symbol \<mapsto>
        refresh (utc_now w) snap ((get_sym_state ?state symbol)\<lparr>notified_level := Some h\<rparr>))\<rparr>"
      unfolding body by (simp split: if_splits)
    with s show ?thesis by simp
  qed
  have aborted: "file_after (main w) = state_file w \<and> notified_level (stored_after w symbol) = Some n"
    if "raised (main w) \<noteq> None"
  proof -
    from that obtain e where e: "raised (main w) = Some e" by auto
    show ?thesis using main_raised [OF e] stored_after_raised [OF e] stored(2) by simp
  qed
  from h1 issues completed aborted show ?thesis by blast
qed

theorem peak_change_alert_persisted_witness:
  "raised (main (sample_world 60 (Some (sample_state ''TQQQ'' ''2024-01-10'' 2)))) = None
   \<and> filter (\<lambda>i. i_symbol i = ''TQQQ'')
        (issues_of (calls (main (sample_world 60 (Some (sample_state ''TQQQ'' ''2024-01-10'' 2))))))
      = [\<lparr>i_symbol = ''TQQQ'', i_level = 1, i_snap = sample_snapshot 60, i_threshold = - 0.30\<rparr>]
   \<and> notified_level (stored_after (sample_world 60 (Some (sample_state ''TQQQ'' ''2024-01-10'' 2)))
        ''TQQQ'') = Some 1
   \<and> raised (main (sample_world_outage ''SOXL'' 60 (Some (sample_state ''TQQQ'' ''2024-01-10'' 2))))
        = Some (FetchFailed ''SOXL'')
   \<and> file_after (main (sample_world_outage ''SOXL'' 60 (Some (sample_state ''TQQQ'' ''2024-01-10'' 2))))
        = Some (sample_state ''TQQQ'' ''2024-01-10'' 2)
   \<and> notified_level (stored_after
        (sample_world_outage ''SOXL'' 60 (Some (sample_state ''TQQQ'' ''2024-01-10'' 2))) ''TQQQ'') = Some 2"
proof -
  let ?file = "Some (sample_state ''TQQQ'' ''2024-01-10'' 2)"
  let ?ladder = "[- 0.30, - 0.55, - 0.75 :: real]"
  have mem: "(''TQQQ'', ?ladder) \<in> set RULES" by (simp add: RULES_def)
  have hit: "decide_level (drawdown (sample_snapshot 60)) ?ladder = Some 1" by (rule sample_hits)
  have moved: "peak_date (sample_snapshot 60) \<noteq> ''2024-01-10''" by (simp add: sample_snapshot_def)
  have n: "(0::int) < 2" by simp
  have good: "1 \<le> (1::int)
    \<and> filter (\<lambda>i. i_symbol i = ''TQQQ'') (issues_of (calls (main (sample_world 60 ?file))))
        = [\<lparr>i_symbol = ''TQQQ'', i_level = 1, i_snap = sample_snapshot 60,
            i_threshold = ?ladder ! nat (1 - 1)\<rparr>]
    \<and> (raised (main (sample_world 60 ?file)) = None
          \<longrightarrow> notified_level (stored_after (sample_world 60 ?file) ''TQQQ'') = Some 1)
    \<and> (raised (main (sample_world 60 ?file)) \<noteq> None \<longrightarrow>
          file_after (main (sample_world 60 ?file)) = state_file (sample_world 60 ?file)
          \<and> notified_level (stored_after (sample_world 60 ?file) ''TQQQ'') = Some 2)"
  proof (rule peak_change_alert_persisted [OF mem _ _ _ _ n moved hit])
    show "Download ''TQQQ'' \<in> set (calls (main (sample_world 60 ?file)))" by (simp add: main_alert)
    show "fetch_snapshot (download (sample_world 60 ?file)) ''TQQQ'' = Inr (sample_snapshot 60)"
      by (rule fetch_sample_world) simp
    show "st_peak_date (stored_before (sample_world 60 ?file) ''TQQQ'') = Some ''2024-01-10''"
      by (simp add: sample_stored_before)
    show "notified_level (stored_before (sample_world 60 ?file) ''TQQQ'') = Some 2"
      by (simp add: sample_stored_before)
  qed
  have bad: "1 \<le> (1::int)
    \<and> filter (\<lambda>i. i_symbol i = ''TQQQ'')
         (issues_of (calls (main (sample_world_outage ''SOXL'' 60 ?file))))
        = [\<lparr>i_symbol = ''TQQQ'', i_level = 1, i_snap = sample_snapshot 60,
            i_threshold = ?ladder ! nat (1 - 1)\<rparr>]
    \<and> (raised (main (sample_world_outage ''SOXL'' 60 ?file)) = None
          \<longrightarrow> notified_level (stored_after (sample_world_outage ''SOXL'' 60 ?file) ''TQQQ'') = Some 1)
    \<and> (raised (main (sample_world_outage ''SOXL'' 60 ?file)) \<noteq> None \<longrightarrow>
          file_after (main (sample_world_outage ''SOXL'' 60 ?file))
            = state_file (sample_world_outage ''SOXL'' 60 ?file)
          \<and> notified_level (stored_after (sample_world_outage ''SOXL'' 60 ?file) ''TQQQ'') = Some 2)"
  proof (rule peak_change_alert_persisted [OF mem _ _ _ _ n moved hit])
    show "Download ''TQQQ'' \<in> set (calls (main (sample_world_outage ''SOXL'' 60 ?file)))"
      by (simp add: main_outage)
    show "fetch_snapshot (download (sample_world_outage ''SOXL'' 60 ?file)) ''TQQQ''
            = Inr (sample_snapshot 60)"
      by (simp add: fetch_sample_world_outage)
    show "st_peak_date (stored_before (sample_world_outage ''SOXL'' 60 ?file) ''TQQQ'')
            = Some ''2024-01-10''"
      by (simp add: stored_before_def get_sym_state_def load_state_def sample_state_def)
    show "notified_level (stored_before (sample_world_outage ''SOXL'' 60 ?file) ''TQQQ'') = Some 2"
      by (simp add: stored_before_def get_sym_state_def load_state_def sample_state_def)
  qed
  have r1: "raised (main (sample_world 60 ?file)) = None" by (rule main_alert)
  have r2: "raised (main (sample_world_outage ''SOXL'' 60 ?file)) = Some (FetchFailed ''SOXL'')"
    by (rule main_outage)
  from good r1 have
    "filter (\<lambda>i. i_symbol i = ''TQQQ'') (issues_of (calls (main (sample_world 60 ?file))))
        = [\<lparr>i_symbol = ''TQQQ'', i_level = 1, i_snap = sample_snapshot 60, i_threshold = - 0.30\<rparr>]"
    "notified_level (stored_after (sample_world 60 ?file) ''TQQQ'') = Some 1"
    by simp_all
  moreover from bad r2 have
    "file_after (main (sample_world_outage ''SOXL'' 60 ?file)) = ?file"
    "notified_level (stored_after (sample_world_outage ''SOXL'' 60 ?file) ''TQQQ'') = Some 2"
    by simp_all
  ultimately show ?thesis using r1 r2 by simp
qed

text \<open>
  The claim as stated fails: the hypotheses hold for the first symbol, its issue at
  level 1 is filed, the provider then has nothing for the second symbol, and the
  notified level in the state file is still 2.
\<close>

theorem peak_change_alert_not_persisted:
  "st_peak_date (stored_before
      (sample_world_outage ''SOXL'' 60 (Some (sample_state ''TQQQ'' ''2024-01-10'' 2))) ''TQQQ'')
     = Some ''2024-01-10''
   \<and> notified_level (stored_before
      (sample_world_outage ''SOXL'' 60 (Some (sample_state ''TQQQ'' ''2024-01-10'' 2))) ''TQQQ'')
     = Some 2
   \<and> fetch_snapshot (download
      (sample_world_outage ''SOXL'' 60 (Some (sample_state ''TQQQ'' ''2024-01-10'' 2)))) ''TQQQ''
     = Inr (sample_snapshot 60)
   \<and> peak_date (sample_snapshot 60) = ''2024-02-29''
   \<and> decide_level (drawdown (sample_snapshot 60)) [- 0.30, - 0.55, - 0.75] = Some 1
   \<and> calls (main (sample_world_outage ''SOXL'' 60 (Some (sample_state ''TQQQ'' ''2024-01-10'' 2))))
     = [Download ''TQQQ'',
        IssueCreate \<lparr>i_symbol = ''TQQQ'', i_level = 1, i_snap = sample_snapshot 60,
                     i_threshold = - 0.30\<rparr>,
        Download ''SOXL'']
   \<and> raised (main (sample_world_outage ''SOXL'' 60 (Some (sample_state ''TQQQ'' ''2024-01-10'' 2))))
     = Some (FetchFailed ''SOXL'')
   \<and> notified_level (stored_after
      (sample_world_outage ''SOXL'' 60 (Some (sample_state ''TQQQ'' ''2024-01-10'' 2))) ''TQQQ'')
     = Some 2"
proof -
  let ?w = "sample_world_outage ''SOXL'' 60 (Some (sample_state ''TQQQ'' ''2024-01-10'' 2))"
  have "stored_after ?w ''TQQQ'' = stored_before ?w ''TQQQ''"
    by (rule stored_after_raised) (rule main_outage)
  moreover have "st_peak_date (stored_before ?w ''TQQQ'') = Some ''2024-01-10''"
    "notified_level (stored_before ?w ''TQQQ'') = Some 2"
    by (simp_all add: stored_before_def get_sym_state_def load_state_def sample_state_def)
  moreover have "fetch_snapshot (download ?w) ''TQQQ'' = Inr (sample_snapshot 60)"
    by (simp add: fetch_sample_world_outage)
  moreover have "peak_date (sample_snapshot 60) = ''2024-02-29''"
    by (simp add: sample_snapshot_def)
  moreover note sample_hits(1) main_outage
  ultimately show ?thesis by simp
qed

text \<open>
  Claim C7, as the code has it. When a run completes, the mirror fields in the state
  file of every configured symbol are those of the run's snapshot, and
  \<open>updated_at\<close> is the run's time, alert or not; when a run raises, the state file is
  left as it was. In every run, when the hit level of a symbol is none, or at most the
  effective notified level, no issue is filed for the symbol and its notified level
  in the state file stays as it was.
\<close>

theorem mirror_fields_persisted:
  "(\<forall>levels. raised (main w) = None \<and> (symbol, levels) \<in> set RULES \<longrightarrow>
       (\<exists>snap. fetch_snapshot (download w) symbol = Inr snap
          \<and> st_last_date (stored_after w symbol) = Some (last_date snap)
          \<and> st_last_close (stored_after w symbol) = Some (last_close snap)
          \<and> st_peak_date (stored_after w symbol) = Some (peak_date snap)
          \<and> st_peak_value (stored_after w symbol) = Some (peak_value snap)
          \<and> st_drawdown (stored_after w symbol) = Some (drawdown snap)
          \<and> st_updated_at (stored_after w symbol) = Some (utc_now w)))
   \<and> (raised (main w) \<noteq> None \<longrightarrow> file_after (main w) = state_file w)
   \<and> (\<forall>levels snap.
         (symbol, levels) \<in> set RULES \<and> fetch_snapshot (download w) symbol = Inr snap
         \<and> (decide_level (drawdown snap) levels = None
              \<or> (\<exists>h. decide_level (drawdown snap) levels = Some h
                     \<and> h \<le> effective_level (stored_before w symbol) snap))
       \<longrightarrow> filter (\<lambda>i. i_symbol i = symbol) (issues_of (calls (main w))) = []
           \<and> notified_level (stored_after w symbol) = notified_level (stored_before w symbol))"
proof (intro conjI allI impI)
  fix levels
  assume a: "raised (main w) = None \<and> (symbol, levels) \<in> set RULES"
  then have completed: "raised (main w) = None" and mem: "(symbol, levels) \<in> set RULES"
    by simp_all
  from stored_after_completed [OF completed mem] obtain cs1 st1 where
    p: "process_symbol w (utc_now w) (load_state (state_file w)) (symbol, levels) = (cs1, Inr st1)"
    and s: "stored_after w symbol = get_sym_state st1 symbol" by blast
  from process_symbol_mirror [OF p] show "\<exists>snap. fetch_snapshot (download w) symbol = Inr snap
          \<and> st_last_date (stored_after w symbol) = Some (last_date snap)
          \<and> st_last_close (stored_after w symbol) = Some (last_close snap)
          \<and> st_peak_date (stored_after w symbol) = Some (peak_date snap)
          \<and> st_peak_value (stored_after w symbol) = Some (peak_value snap)
          \<and> st_drawdown (stored_after w symbol) = Some (drawdown snap)
          \<and> st_updated_at (stored_after w symbol) = Some (utc_now w)"
    unfolding s .
next
  assume "raised (main w) \<noteq> None"
  then obtain e where "raised (main w) = Some e" by auto
  then show "file_after (main w) = state_file w" by (rule main_raised)
next
  fix levels snap
  assume a: "(symbol, levels) \<in> set RULES \<and> fetch_snapshot (download w) symbol = Inr snap
         \<and> (decide_level (drawdown snap) levels = None
              \<or> (\<exists>h. decide_level (drawdown snap) levels = Some h
                     \<and> h \<le> effective_level (stored_before w symbol) snap))"
  then have none: "filter (\<lambda>i. i_symbol i = symbol) (issues_of (calls (main w))) = []"
    by (intro main_no_issue [where levels = levels and snap = snap]) simp_all
  then show "filter (\<lambda>i. i_symbol i = symbol) (issues_of (calls (main w))) = []" .
  from none show "notified_level (stored_after w symbol) = notified_level (stored_before w symbol)"
    by (rule stored_after_notified_kept)
qed

theorem mirror_fields_persisted_witness:
  "raised (main (sample_world 95 (Some (sample_state ''TQQQ'' ''2024-01-10'' 2)))) = None
   \<and> decide_level (drawdown (sample_snapshot 95)) [- 0.30, - 0.55, - 0.75] = None
   \<and> st_last_date (stored_after (sample_world 95 (Some (sample_state ''TQQQ'' ''2024-01-10'' 2)))
        ''TQQQ'') = Some ''2024-03-01''
   \<and> st_last_close (stored_after (sample_world 95 (Some (sample_state ''TQQQ'' ''2024-01-10'' 2)))
        ''TQQQ'') = Some 95
   \<and> st_peak_date (stored_after (sample_world 95 (Some (sample_state ''TQQQ'' ''2024-01-10'' 2)))
        ''TQQQ'') = Some ''2024-02-29''
   \<and> st_peak_value (stored_after (sample_world 95 (Some (sample_state ''TQQQ'' ''2024-01-10'' 2)))
        ''TQQQ'') = Some 100
   \<and> st_updated_at (stored_after (sample_world 95 (Some (sample_state ''TQQQ'' ''2024-01-10'' 2)))
        ''TQQQ'') = Some ''2024-03-01T21:30:00+00:00''
   \<and> filter (\<lambda>i. i_symbol i = ''TQQQ'')
        (issues_of (calls (main (sample_world 95 (Some (sample_state ''TQQQ'' ''2024-01-10'' 2))))))
      = []
   \<and> notified_level (stored_after (sample_world 95 (Some (sample_state ''TQQQ'' ''2024-01-10'' 2)))
        ''TQQQ'') = Some 2
   \<and> raised (main (sample_world_outage ''SOXL'' 60 (Some (sample_state ''TQQQ'' ''2024-01-10'' 2))))
        = Some (FetchFailed ''SOXL'')
   \<and> file_after (main (sample_world_outage ''SOXL'' 60 (Some (sample_state ''TQQQ'' ''2024-01-10'' 2))))
        = Some (sample_state ''TQQQ'' ''2024-01-10'' 2)"
proof -
  let ?file = "Some (sample_state ''TQQQ'' ''2024-01-10'' 2)"
  let ?q = "sample_world 95 ?file"
  let ?o = "sample_world_outage ''SOXL'' 60 ?file"
  let ?ladder = "[- 0.30, - 0.55, - 0.75 :: real]"
  have mem: "(''TQQQ'', ?ladder) \<in> set RULES" by (simp add: RULES_def)
  have completed: "raised (main ?q) = None" by (rule main_quiet)
  have fetch: "fetch_snapshot (download ?q) ''TQQQ'' = Inr (sample_snapshot 95)"
    by (rule fetch_sample_world) simp
  have none: "decide_level (drawdown (sample_snapshot 95)) ?ladder = None" by (rule sample_hits)
  note claim = mirror_fields_persisted [of ?q "''TQQQ''"]
  from claim completed mem obtain snap where
    snap: "fetch_snapshot (download ?q) ''TQQQ'' = Inr snap"
    and fields: "st_last_date (stored_after ?q ''TQQQ'') = Some (last_date snap)"
      "st_last_close (stored_after ?q ''TQQQ'') = Some (last_close snap)"
      "st_peak_date (stored_after ?q ''TQQQ'') = Some (peak_date snap)"
      "st_peak_value (stored_after ?q ''TQQQ'') = Some (peak_value snap)"
      "st_updated_at (stored_after ?q ''TQQQ'') = Some (utc_now ?q)"
    by blast
  from snap fetch have "snap = sample_snapshot 95" by simp
  with fields have mirror:
    "st_last_date (stored_after ?q ''TQQQ'') = Some ''2024-03-01''"
    "st_last_close (stored_after ?q ''TQQQ'') = Some 95"
    "st_peak_date (stored_after ?q ''TQQQ'') = Some ''2024-02-29''"
    "st_peak_value (stored_after ?q ''TQQQ'') = Some 100"
    "st_updated_at (stored_after ?q ''TQQQ'') = Some ''2024-03-01T21:30:00+00:00''"
    by (simp_all add: sample_snapshot_def)
  from claim mem fetch none have quiet:
    "filter (\<lambda>i. i_symbol i = ''TQQQ'') (issues_of (calls (main ?q))) = []"
    "notified_level (stored_after ?q ''TQQQ'') = notified_level (stored_before ?q ''TQQQ'')"
    by blast+
  have kept: "notified_level (stored_after ?q ''TQQQ'') = Some 2"
    using quiet(2) by (simp add: sample_stored_before)
  have r: "raised (main ?o) = Some (FetchFailed ''SOXL'')" by (rule main_outage)
  then have "raised (main ?o) \<noteq> None" by simp
  with mirror_fields_persisted [of ?o "''TQQQ''"]
  have "file_after (main ?o) = state_file ?o" by blast
  then have same: "file_after (main ?o) = ?file" by simp
  from completed none mirror quiet(1) kept r same show ?thesis by simp
qed

text \<open>
  The claim as stated fails: the first symbol is evaluated successfully (its
  snapshot is fetched and its issue is filed), the provider then has nothing for the
  second symbol, and the state file still has no last date for the first symbol and
  its old peak date.
\<close>

theorem mirror_fields_not_persisted:
  "fetch_snapshot (download
      (sample_world_outage ''SOXL'' 60 (Some (sample_state ''TQQQ'' ''2024-01-10'' 2)))) ''TQQQ''
     = Inr (sample_snapshot 60)
   \<and> last_date (sample_snapshot 60) = ''2024-03-01''
   \<and> peak_date (sample_snapshot 60) = ''2024-02-29''
   \<and> \<not> isl (snd (process_symbol
          (sample_world_outage ''SOXL'' 60 (Some (sample_state ''TQQQ'' ''2024-01-10'' 2)))
          ''2024-03-01T21:30:00+00:00''
          (sample_state ''TQQQ'' ''2024-01-10'' 2)
          (''TQQQ'', [- 0.30, - 0.55, - 0.75])))
   \<and> calls (main (sample_world_outage ''SOXL'' 60 (Some (sample_state ''TQQQ'' ''2024-01-10'' 2))))
     = [Download ''TQQQ'',
        IssueCreate \<lparr>i_symbol = ''TQQQ'', i_level = 1, i_snap = sample_snapshot 60,
                     i_threshold = - 0.30\<rparr>,
        Download ''SOXL'']
   \<and> raised (main (sample_world_outage ''SOXL'' 60 (Some (sample_state ''TQQQ'' ''2024-01-10'' 2))))
     = Some (FetchFailed ''SOXL'')
   \<and> st_last_date (stored_after
      (sample_world_outage ''SOXL'' 60 (Some (sample_state ''TQQQ'' ''2024-01-10'' 2))) ''TQQQ'')
     = None
   \<and> st_peak_date (stored_after
      (sample_world_outage ''SOXL'' 60 (Some (sample_state ''TQQQ'' ''2024-01-10'' 2))) ''TQQQ'')
     = Some ''2024-01-10''"
proof -
  let ?w = "sample_world_outage ''SOXL'' 60 (Some (sample_state ''TQQQ'' ''2024-01-10'' 2))"
  have "stored_after ?w ''TQQQ'' = stored_before ?w ''TQQQ''"
    by (rule stored_after_raised) (rule main_outage)
  moreover have "st_last_date (stored_before ?w ''TQQQ'') = None"
    "st_peak_date (stored_before ?w ''TQQQ'') = Some ''2024-01-10''"
    by (simp_all add: stored_before_def get_sym_state_def load_state_def sample_state_def
        empty_sym_state_def)
  moreover have fetch: "fetch_snapshot (download ?w) ''TQQQ'' = Inr (sample_snapshot 60)"
    by (simp add: fetch_sample_world_outage)
  moreover have "last_date (sample_snapshot 60) = ''2024-03-01''"
    "peak_date (sample_snapshot 60) = ''2024-02-29''"
    by (simp_all add: sample_snapshot_def)
  moreover have "\<not> isl (snd (process_symbol ?w ''2024-03-01T21:30:00+00:00''
          (sample_state ''TQQQ'' ''2024-01-10'' 2) (''TQQQ'', [- 0.30, - 0.55, - 0.75])))"
    by (simp add: process_symbol_def notify_def create_issue_def py_index_def decide_level_def
        effective_level_def stored_level_def get_sym_state_def sample_state_def
        sample_snapshot_def empty_sym_state_def Let_def fetch_sample_world_outage)
  moreover note main_outage
  ultimately show ?thesis by simp
qed

end
